theory Spec2Isabelle
  imports Complex_Main "HOL-Library.AList"
begin

section \<open>Desktop stream server and panel client: a shallow embedding\<close>

text \<open>
  The development follows two programs of the repository.  The server
  (\<^verbatim>\<open>windows_server/main.py\<close>) owns a \<^verbatim>\<open>ConnectionChecker\<close>, which keeps one
  record per control client, and a \<^verbatim>\<open>CaptureWorker\<close>, which captures, encodes and
  publishes frames.  The client (\<^verbatim>\<open>services/zmq_stream_service.py\<close> and
  \<^verbatim>\<open>ui/panels/desktop_stream_panel.py\<close>) owns a \<^verbatim>\<open>ZMQStreamService\<close> session and a
  panel with a bounded render buffer.

  Python values are modelled as follows: \<^verbatim>\<open>bytes\<close> and \<^verbatim>\<open>str\<close> as \<^typ>\<open>string\<close>,
  unbounded integers as \<^typ>\<open>int\<close>, \<^verbatim>\<open>time.time()\<close> readings as \<^typ>\<open>real\<close>, a
  \<^verbatim>\<open>dict\<close> as an association list in insertion order (\<^const>\<open>AList.update\<close> overwrites
  in place or appends, as a Python dict does), and every \<^verbatim>\<open>raise\<close> as a value.
  What the operating system, the network and the libraries decide (what a
  \<^verbatim>\<open>recv\<close> returns, whether an encoder succeeds, whether a file can be read) is an
  input of the function that consumes it.
\<close>

type_synonym bytes = string

datatype py_error = KeyError

text \<open>\<^verbatim>\<open>k in d\<close> for a dict \<open>d\<close>.\<close>

definition dict_has :: "'k \<Rightarrow> ('k \<times> 'v) list \<Rightarrow> bool" where
  "dict_has k d = (k \<in> set (map fst d))"

text \<open>\<^verbatim>\<open>del d[k]\<close>: raises \<^verbatim>\<open>KeyError\<close> when the key is absent.\<close>

definition dict_del :: "'k \<Rightarrow> ('k \<times> 'v) list \<Rightarrow> py_error + ('k \<times> 'v) list" where
  "dict_del k d = (if dict_has k d then Inr (AList.delete k d) else Inl KeyError)"


section \<open>CaptureWorker: change detection and publishing\<close>

text \<open>
  The fields of \<^verbatim>\<open>CaptureWorker\<close> that the network-send block of
  \<^verbatim>\<open>_worker_loop\<close> reads and writes.  \<^verbatim>\<open>last_frame_hash\<close> starts as \<^verbatim>\<open>None\<close>.
\<close>

record capture_worker =
  last_frame_hash :: "int option"
  frame_skip_count :: int

definition init_capture_worker :: capture_worker where
  "init_capture_worker = \<lparr>last_frame_hash = None, frame_skip_count = 0\<rparr>"

text \<open>
  Lines 321--335 of \<^verbatim>\<open>main.py\<close>:
  \<^verbatim>\<open>
    should_send_frame = True
    if frame_hash == self.last_frame_hash:
        self.frame_skip_count += 1
        should_send_frame = False
    else:
        self.last_frame_hash = frame_hash
        self.frame_skip_count = 0
    if self.frame_skip_count >= 10:
        should_send_frame = True
        self.frame_skip_count = 0
  \<close>
  The result is \<^verbatim>\<open>should_send_frame\<close> and the updated worker.
\<close>

definition detect_change :: "int \<Rightarrow> capture_worker \<Rightarrow> bool \<times> capture_worker" where
  "detect_change frame_hash w =
     (let (should_send_frame, w1) =
            (if Some frame_hash = last_frame_hash w
             then (False, w\<lparr>frame_skip_count := frame_skip_count w + 1\<rparr>)
             else (True, w\<lparr>last_frame_hash := Some frame_hash, frame_skip_count := 0\<rparr>))
      in if frame_skip_count w1 \<ge> 10
         then (True, w1\<lparr>frame_skip_count := 0\<rparr>)
         else (should_send_frame, w1))"

text \<open>
  The configuration keys the encoder reads (\<^verbatim>\<open>DEFAULT_CONFIG\<close>, overwritten by
  whatever \<^verbatim>\<open>config.json\<close> holds).
\<close>

record config =
  target_resolution :: "int \<times> int"
  jpeg_quality :: int
  encoding_format :: string
  png_compression :: int
  webp_quality :: int

definition DEFAULT_CONFIG :: config where
  "DEFAULT_CONFIG = \<lparr>target_resolution = (160, 128), jpeg_quality = 10,
     encoding_format = ''jpg'', png_compression = 6, webp_quality = 10\<rparr>"

datatype imwrite_flag = IMWRITE_JPEG_QUALITY | IMWRITE_PNG_COMPRESSION | IMWRITE_WEBP_QUALITY

text \<open>
  \<^verbatim>\<open>cv2.imencode(ext, img, params)\<close> returns \<^verbatim>\<open>(success, encoded_data)\<close>, and
  \<^verbatim>\<open>cv2.resize(img, size, interpolation=cv2.INTER_AREA)\<close> an image; both are library
  code and stay parameters.
\<close>

type_synonym 'img imencode = "string \<Rightarrow> 'img \<Rightarrow> (imwrite_flag \<times> int) list \<Rightarrow> bool \<times> bytes"
type_synonym 'img resize = "'img \<Rightarrow> int \<times> int \<Rightarrow> 'img"

text \<open>Lines 338--352: resize, then the \<^verbatim>\<open>if/elif/else\<close> chain over the format.\<close>

definition encode_frame :: "'img imencode \<Rightarrow> 'img resize \<Rightarrow> config \<Rightarrow> 'img \<Rightarrow> bool \<times> bytes" where
  "encode_frame imencode resize cfg img_bgr =
     (let small_bgr = resize img_bgr (target_resolution cfg);
          fmt = encoding_format cfg
      in if fmt = ''jpg''
         then imencode ''.jpg'' small_bgr [(IMWRITE_JPEG_QUALITY, jpeg_quality cfg * 10)]
         else if fmt = ''png''
         then imencode ''.png'' small_bgr [(IMWRITE_PNG_COMPRESSION, png_compression cfg)]
         else if fmt = ''webp''
         then imencode ''.webp'' small_bgr [(IMWRITE_WEBP_QUALITY, webp_quality cfg * 10)]
         else imencode ''.jpg'' small_bgr [(IMWRITE_JPEG_QUALITY, jpeg_quality cfg * 10)])"

text \<open>
  Lines 337--357 and 376--377: when the frame is to be sent and the encoder
  succeeded, \<^verbatim>\<open>send_multipart([encoding_format.encode(), encoded_data.tobytes()])\<close>.
  The non-blocking send raises \<^verbatim>\<open>zmq.Again\<close> when the socket does not take the
  message, which the loop swallows; \<open>accepted\<close> says whether it took it.  The result
  is the message that went out, if any.
\<close>

definition publish_frame ::
    "'img imencode \<Rightarrow> 'img resize \<Rightarrow> config \<Rightarrow> 'img \<Rightarrow> bool \<Rightarrow> bytes list option" where
  "publish_frame imencode resize cfg img_bgr accepted =
     (let (success, encoded_data) = encode_frame imencode resize cfg img_bgr
      in if success
         then (let format_prefix = encoding_format cfg
               in if accepted then Some [format_prefix, encoded_data] else None)
         else None)"

text \<open>
  Lines 320--377, the block under \<^verbatim>\<open>if should_send:\<close>, for one captured frame.
  \<open>py_hash\<close> is \<^verbatim>\<open>hash(img_bgr.tobytes())\<close>.
\<close>

definition network_send ::
    "'img imencode \<Rightarrow> 'img resize \<Rightarrow> ('img \<Rightarrow> int) \<Rightarrow> config \<Rightarrow> 'img \<times> bool \<Rightarrow>
     capture_worker \<Rightarrow> bytes list option \<times> capture_worker" where
  "network_send imencode resize py_hash cfg frame w =
     (let (img_bgr, accepted) = frame;
          (should_send_frame, w') = detect_change (py_hash img_bgr) w
      in (if should_send_frame then publish_frame imencode resize cfg img_bgr accepted else None,
          w'))"

text \<open>
  One cycle of \<^verbatim>\<open>_worker_loop\<close> that captured a frame: \<open>should_send\<close> is the value
  of \<^verbatim>\<open>self.conn_checker.get_connected_count() > 0\<close> read at line 292.
\<close>

definition worker_cycle ::
    "'img imencode \<Rightarrow> 'img resize \<Rightarrow> ('img \<Rightarrow> int) \<Rightarrow> config \<Rightarrow> bool \<Rightarrow> 'img \<times> bool \<Rightarrow>
     capture_worker \<Rightarrow> bytes list option \<times> capture_worker" where
  "worker_cycle imencode resize py_hash cfg should_send frame w =
     (if should_send then network_send imencode resize py_hash cfg frame w else (None, w))"

text \<open>
  Successive cycles with publishing active: the messages that went out, in order,
  and the worker afterwards.
\<close>

fun worker_run ::
    "'img imencode \<Rightarrow> 'img resize \<Rightarrow> ('img \<Rightarrow> int) \<Rightarrow> config \<Rightarrow> ('img \<times> bool) list \<Rightarrow>
     capture_worker \<Rightarrow> bytes list list \<times> capture_worker" where
  "worker_run imencode resize py_hash cfg [] w = ([], w)"
| "worker_run imencode resize py_hash cfg (frame # frames) w =
     (let (msg, w') = worker_cycle imencode resize py_hash cfg True frame w;
          (msgs, w'') = worker_run imencode resize py_hash cfg frames w'
      in ((case msg of None \<Rightarrow> [] | Some m \<Rightarrow> [m]) @ msgs, w''))"

text \<open>The send decisions alone, over a run of frame hashes.\<close>

fun send_decisions :: "int list \<Rightarrow> capture_worker \<Rightarrow> bool list \<times> capture_worker" where
  "send_decisions [] w = ([], w)"
| "send_decisions (h # hs) w =
     (let (d, w') = detect_change h w;
          (ds, w'') = send_decisions hs w'
      in (d # ds, w''))"

section \<open>CaptureWorker: key material\<close>

text \<open>
  \<^verbatim>\<open>_load_or_generate_curve_keys\<close> reads and writes two files and calls two
  functions of the ZMQ library.  The file system is a map from paths to contents
  (\<^verbatim>\<open>os.path.exists(p)\<close> is \<open>files p \<noteq> None\<close>); whether an \<^verbatim>\<open>open\<close>/\<^verbatim>\<open>read\<close> or an
  \<^verbatim>\<open>open\<close>/\<^verbatim>\<open>write\<close> raises, what \<^verbatim>\<open>zmq.curve_public\<close> derives (\<open>None\<close> when it
  raises on a malformed key) and the pair the next \<^verbatim>\<open>zmq.curve_keypair()\<close> returns
  are given by the environment.
\<close>

record key_env =
  curve_public :: "bytes \<Rightarrow> bytes option"
  curve_keypair :: "bytes \<times> bytes"
  read_fails :: "string \<Rightarrow> bool"
  write_fails :: "string \<Rightarrow> bool"

datatype log_entry = Info string | Warning string | Error string

definition zmq_secret_key_file :: string where
  "zmq_secret_key_file = ''server_secret.key''"

definition zmq_public_key_file :: string where
  "zmq_public_key_file = ''server_public.key''"

text \<open>
  Lines 210--219: the \<^verbatim>\<open>try\<close> block returns the pair, or logs the exception and
  falls through.  The result is the pair returned from inside the \<^verbatim>\<open>try\<close>, if
  any, and the log lines written.
\<close>

definition load_existing_key ::
    "key_env \<Rightarrow> (string \<rightharpoonup> bytes) \<Rightarrow> (bytes \<times> bytes) option \<times> log_entry list" where
  "load_existing_key env files =
     (case files zmq_secret_key_file of
        None \<Rightarrow> (None, [])
      | Some secret_key \<Rightarrow>
          if read_fails env zmq_secret_key_file
          then (None, [Info ''Loading existing ZMQ secret key from file.'',
                       Error ''Failed to load ZMQ secret key. Generating new pair.''])
          else (case curve_public env secret_key of
                  None \<Rightarrow> (None, [Info ''Loading existing ZMQ secret key from file.'',
                                Error ''Failed to load ZMQ secret key. Generating new pair.''])
                | Some public_key \<Rightarrow>
                    (Some (public_key, secret_key),
                     [Info ''Loading existing ZMQ secret key from file.''])))"

text \<open>
  One \<^verbatim>\<open>try: open(path, 'wb') ... f.write(data)\<close> with its \<^verbatim>\<open>except\<close> logging.
  A write that raises is taken to leave the file as it was.  Log lines carry the
  fixed part of the source's messages.
\<close>

definition save_key ::
    "key_env \<Rightarrow> string \<Rightarrow> bytes \<Rightarrow> string \<Rightarrow> string \<Rightarrow> (string \<rightharpoonup> bytes) \<Rightarrow>
     (string \<rightharpoonup> bytes) \<times> log_entry list" where
  "save_key env path data saved failed files =
     (if write_fails env path then (files, [Error failed])
      else (files(path \<mapsto> data), [Info saved]))"

text \<open>
  The whole of \<^verbatim>\<open>_load_or_generate_curve_keys\<close>: the returned
  \<^verbatim>\<open>(public_key, secret_key)\<close>, the files afterwards and the log.
\<close>

definition load_or_generate_curve_keys ::
    "key_env \<Rightarrow> (string \<rightharpoonup> bytes) \<Rightarrow> (bytes \<times> bytes) \<times> (string \<rightharpoonup> bytes) \<times> log_entry list" where
  "load_or_generate_curve_keys env files =
     (case load_existing_key env files of
        (Some pair, lines) \<Rightarrow> (pair, files, lines)
      | (None, lines) \<Rightarrow>
          (let (public_key, secret_key) = curve_keypair env;
               (files1, lines1) = save_key env zmq_secret_key_file secret_key
                  ''ZMQ secret key saved.'' ''Failed to save ZMQ secret key'' files;
               (files2, lines2) = save_key env zmq_public_key_file public_key
                  ''ZMQ public key saved to server_public.key.'' ''Failed to save ZMQ public key'' files1
           in ((public_key, secret_key), files2,
               lines @ [Info ''Generating new ZMQ Curve key pair.''] @ lines1 @ lines2)))"

text \<open>A library that rejects every key, and one that accepts every key.\<close>

definition rejecting_env :: key_env where
  "rejecting_env = \<lparr>curve_public = (\<lambda>k. None), curve_keypair = (''PUB-NEW'', ''SEC-NEW''),
     read_fails = (\<lambda>p. False), write_fails = (\<lambda>p. False)\<rparr>"

definition accepting_env :: key_env where
  "accepting_env = \<lparr>curve_public = (\<lambda>k. Some (''pub-of-'' @ k)),
     curve_keypair = (''PUB-NEW'', ''SEC-NEW''),
     read_fails = (\<lambda>p. False), write_fails = (\<lambda>p. False)\<rparr>"


section \<open>ConnectionChecker\<close>

text \<open>
  An address is the \<^verbatim>\<open>(host, port)\<close> pair \<^verbatim>\<open>accept()\<close> returns; a connection is
  named by a number.  \<^verbatim>\<open>clients\<close> maps an address to the time of its last
  heartbeat, \<^verbatim>\<open>client_sockets\<close> to its connection.  \<open>closed_conns\<close> lists the
  connections on which \<^verbatim>\<open>close()\<close> was called, latest first.
\<close>

type_synonym addr = "string \<times> int"
type_synonym conn = nat

record connection_checker =
  running :: bool
  clients :: "(addr \<times> real) list"
  client_sockets :: "(addr \<times> conn) list"
  closed_conns :: "conn list"

definition init_checker :: connection_checker where
  "init_checker = \<lparr>running = False, clients = [], client_sockets = [], closed_conns = []\<rparr>"

definition start_checking :: "connection_checker \<Rightarrow> connection_checker" where
  "start_checking s = s\<lparr>running := True\<rparr>"

definition stop_checking :: "connection_checker \<Rightarrow> connection_checker" where
  "stop_checking s = s\<lparr>running := False\<rparr>"

text \<open>
  Lines 118--120, the critical section of the accept path:
  \<^verbatim>\<open>self.clients[addr] = time.time(); self.client_sockets[addr] = conn\<close>.
\<close>

definition accept_client :: "addr \<Rightarrow> conn \<Rightarrow> real \<Rightarrow> connection_checker \<Rightarrow> connection_checker" where
  "accept_client addr conn now s =
     s\<lparr>clients := AList.update addr now (clients s),
       client_sockets := AList.update addr conn (client_sockets s)\<rparr>"

text \<open>What one \<^verbatim>\<open>conn.recv(1024)\<close> under \<^verbatim>\<open>settimeout(5.0)\<close> does.\<close>

datatype recv_result = Data bytes | RecvTimeout | RecvError

datatype loop_ctl = Continue | Break

text \<open>Lines 146--147: \<^verbatim>\<open>with self.lock: self.clients[addr] = time.time()\<close>.\<close>

definition hb_refresh :: "addr \<Rightarrow> real \<Rightarrow> connection_checker \<Rightarrow> connection_checker" where
  "hb_refresh addr now s = s\<lparr>clients := AList.update addr now (clients s)\<rparr>"

text \<open>
  Lines 151--155, the critical section of the \<^verbatim>\<open>except\<close> branch.  Each \<^verbatim>\<open>del\<close> is
  guarded by its own \<^verbatim>\<open>in\<close> test, so neither raises.
\<close>

definition hb_drop :: "addr \<Rightarrow> connection_checker \<Rightarrow> connection_checker" where
  "hb_drop addr s =
     (if dict_has addr (clients s)
      then (let s1 = s\<lparr>clients := AList.delete addr (clients s)\<rparr>
            in if dict_has addr (client_sockets s1)
               then s1\<lparr>client_sockets := AList.delete addr (client_sockets s1)\<rparr>
               else s1)
      else s)"

text \<open>Lines 158--161: \<^verbatim>\<open>conn.close()\<close>, whatever it raises swallowed.\<close>

definition conn_close :: "conn \<Rightarrow> connection_checker \<Rightarrow> connection_checker" where
  "conn_close conn s = s\<lparr>closed_conns := conn # closed_conns s\<rparr>"

text \<open>The loop condition of line 141, read without the lock.\<close>

definition heartbeat_test :: "addr \<Rightarrow> connection_checker \<Rightarrow> bool" where
  "heartbeat_test addr s = (running s \<and> dict_has addr (clients s))"

text \<open>
  Lines 142--156, one pass through the loop body: the outcome of the \<^verbatim>\<open>recv\<close> and
  the clock reading at that moment are given.
\<close>

definition heartbeat_body ::
    "addr \<Rightarrow> recv_result \<times> real \<Rightarrow> connection_checker \<Rightarrow> loop_ctl \<times> connection_checker" where
  "heartbeat_body addr ev s =
     (case ev of
        (Data data, now) \<Rightarrow>
          if data = ''hb'' then (Continue, hb_refresh addr now s) else (Break, s)
      | (RecvTimeout, now) \<Rightarrow> (Break, hb_drop addr s)
      | (RecvError, now) \<Rightarrow> (Break, hb_drop addr s))"

text \<open>
  \<^verbatim>\<open>_heartbeat_check(addr, conn)\<close> run on its own against a list of \<^verbatim>\<open>recv\<close>
  outcomes.  The first component says whether the function returned; it is
  \<open>False\<close> when the outcomes ran out with the thread still waiting in \<^verbatim>\<open>recv\<close>.
\<close>

fun heartbeat_check ::
    "addr \<Rightarrow> conn \<Rightarrow> (recv_result \<times> real) list \<Rightarrow> connection_checker \<Rightarrow>
     bool \<times> connection_checker" where
  "heartbeat_check addr conn [] s =
     (if heartbeat_test addr s then (False, s) else (True, conn_close conn s))"
| "heartbeat_check addr conn (ev # evs) s =
     (if heartbeat_test addr s
      then (case heartbeat_body addr ev s of
              (Continue, s') \<Rightarrow> heartbeat_check addr conn evs s'
            | (Break, s') \<Rightarrow> (True, conn_close conn s'))
      else (True, conn_close conn s))"

text \<open>
  \<^verbatim>\<open>get_connected_count\<close>, lines 166--175.  The list comprehension first, then the
  \<^verbatim>\<open>for\<close> loop, whose \<^verbatim>\<open>del self.clients[addr]\<close> is not guarded and so can raise;
  the state at the raise is kept.
\<close>

definition expired_addrs :: "real \<Rightarrow> (addr \<times> real) list \<Rightarrow> addr list" where
  "expired_addrs current_time cs =
     map fst (filter (\<lambda>(addr, last_time). current_time - last_time > 8.0) cs)"

fun prune_expired :: "addr list \<Rightarrow> connection_checker \<Rightarrow> py_error option \<times> connection_checker" where
  "prune_expired [] s = (None, s)"
| "prune_expired (addr # addrs) s =
     (case dict_del addr (clients s) of
        Inl e \<Rightarrow> (Some e, s)
      | Inr cs \<Rightarrow>
          (let s1 = s\<lparr>clients := cs\<rparr>;
               s2 = (if dict_has addr (client_sockets s1)
                     then s1\<lparr>client_sockets := AList.delete addr (client_sockets s1)\<rparr>
                     else s1)
           in prune_expired addrs s2))"

definition get_connected_count ::
    "real \<Rightarrow> connection_checker \<Rightarrow> (py_error + nat) \<times> connection_checker" where
  "get_connected_count current_time s =
     (case prune_expired (expired_addrs current_time (clients s)) s of
        (Some e, s') \<Rightarrow> (Inl e, s')
      | (None, s') \<Rightarrow> (Inr (length (clients s')), s'))"

text \<open>
  The server's threads, interleaved.  The accept loop, one heartbeat reader per
  accepted connection, and the callers of \<^verbatim>\<open>get_connected_count\<close> (the capture
  worker and the window's timer) run concurrently; what they do to the two maps
  happens inside \<^verbatim>\<open>with self.lock\<close>, so each critical section is one atomic
  action.  A heartbeat reader is at the head of its \<^verbatim>\<open>while\<close> loop, inside
  \<^verbatim>\<open>recv\<close>, or has returned; its loop condition is evaluated without the lock,
  as a step of its own.
\<close>

datatype pc = AtLoopHead | InRecv | Returned

record server =
  checker :: connection_checker
  hb_threads :: "(addr \<times> conn \<times> pc) list"

datatype action =
    Accept addr conn real
  | HbTest nat
  | HbRecv nat recv_result real
  | GetConnectedCount real
  | StopChecking

definition init_server :: server where
  "init_server = \<lparr>checker = start_checking init_checker, hb_threads = []\<rparr>"

fun step :: "action \<Rightarrow> server \<Rightarrow> server" where
  "step (Accept addr conn now) sv =
     (if running (checker sv)
      then sv\<lparr>checker := accept_client addr conn now (checker sv),
              hb_threads := hb_threads sv @ [(addr, conn, AtLoopHead)]\<rparr>
      else sv)"
| "step (HbTest i) sv =
     (if i < length (hb_threads sv)
      then (case hb_threads sv ! i of
              (addr, conn, AtLoopHead) \<Rightarrow>
                if heartbeat_test addr (checker sv)
                then sv\<lparr>hb_threads := (hb_threads sv)[i := (addr, conn, InRecv)]\<rparr>
                else sv\<lparr>checker := conn_close conn (checker sv),
                        hb_threads := (hb_threads sv)[i := (addr, conn, Returned)]\<rparr>
            | _ \<Rightarrow> sv)
      else sv)"
| "step (HbRecv i r now) sv =
     (if i < length (hb_threads sv)
      then (case hb_threads sv ! i of
              (addr, conn, InRecv) \<Rightarrow>
                (case heartbeat_body addr (r, now) (checker sv) of
                   (Continue, c) \<Rightarrow>
                     sv\<lparr>checker := c, hb_threads := (hb_threads sv)[i := (addr, conn, AtLoopHead)]\<rparr>
                 | (Break, c) \<Rightarrow>
                     sv\<lparr>checker := conn_close conn c,
                        hb_threads := (hb_threads sv)[i := (addr, conn, Returned)]\<rparr>)
            | _ \<Rightarrow> sv)
      else sv)"
| "step (GetConnectedCount now) sv =
     sv\<lparr>checker := snd (get_connected_count now (checker sv))\<rparr>"
| "step StopChecking sv = sv\<lparr>checker := stop_checking (checker sv)\<rparr>"

fun run :: "action list \<Rightarrow> server \<Rightarrow> server" where
  "run [] sv = sv"
| "run (a # as) sv = run as (step a sv)"

text \<open>The two key sets, and the two relations between them that are studied.\<close>

definition record_keys :: "connection_checker \<Rightarrow> addr set" where
  "record_keys s = set (map fst (clients s))"

definition socket_keys :: "connection_checker \<Rightarrow> addr set" where
  "socket_keys s = set (map fst (client_sockets s))"

definition keys_agree :: "connection_checker \<Rightarrow> bool" where
  "keys_agree s = (socket_keys s = record_keys s)"

definition sockets_have_records :: "connection_checker \<Rightarrow> bool" where
  "sockets_have_records s = (socket_keys s \<subseteq> record_keys s)"

text \<open>
  A client at 10.0.0.7 whose handshake takes four seconds and whose first
  heartbeat comes 8.9 seconds after it was accepted: the reader thread tests its
  loop condition once the handshake is over, a call of \<^verbatim>\<open>get_connected_count\<close> at
  8.5 seconds finds the record older than 8 seconds, and the heartbeat arrives
  within the reader's 5-second timeout.
\<close>

definition panel_addr :: addr where
  "panel_addr = (''10.0.0.7'', 50000)"

definition late_heartbeat_trace :: "action list" where
  "late_heartbeat_trace =
     [Accept panel_addr 1 0, HbTest 0, GetConnectedCount (17 / 2),
      HbRecv 0 (Data ''hb'') (89 / 10)]"


text \<open>
  Two clients on record at a running server: the first was last heard at time 0,
  the second at time 5.
\<close>

definition second_addr :: addr where
  "second_addr = (''10.0.0.8'', 50001)"

definition two_clients :: connection_checker where
  "two_clients = \<lparr>running = True, clients = [(panel_addr, 0), (second_addr, 5)],
     client_sockets = [(panel_addr, 1), (second_addr, 2)], closed_conns = []\<rparr>"


section \<open>ZMQStreamService: the client session\<close>

text \<open>
  Sockets, contexts, pollers, threads and timers are named by numbers drawn from
  \<open>next_handle\<close>, which exists only in the model: two objects are the same object
  exactly when they have the same number.  \<open>svc_running\<close>, \<open>tcp_connected\<close> and
  \<open>zmq_initialized\<close> are the attributes \<^verbatim>\<open>_running\<close>, \<^verbatim>\<open>_tcp_connected\<close> and
  \<^verbatim>\<open>_zmq_initialized\<close>.  \<open>status_events\<close> and \<open>frame_events\<close> list what the signals
  \<^verbatim>\<open>connection_status_changed\<close> and \<^verbatim>\<open>frame_decoded\<close> emitted, oldest first.
\<close>

record 'p zmq_stream_service =
  tcp_socket :: "nat option"
  zmq_ctx :: "nat option"
  zmq_sock :: "nat option"
  zmq_poller :: "nat option"
  svc_running :: bool
  tcp_connected :: bool
  zmq_initialized :: bool
  tcp_thread :: "nat option"
  zmq_decode_thread :: "nat option"
  frame_count :: int
  stats_timer :: "nat option"
  next_handle :: nat
  status_events :: "(bool \<times> string) list"
  frame_events :: "'p list"

definition init_service :: "'p zmq_stream_service" where
  "init_service = \<lparr>tcp_socket = None, zmq_ctx = None, zmq_sock = None, zmq_poller = None,
     svc_running = False, tcp_connected = False, zmq_initialized = False,
     tcp_thread = None, zmq_decode_thread = None, frame_count = 0, stats_timer = None,
     next_handle = 0, status_events = [], frame_events = []\<rparr>"

text \<open>
  Where \<^verbatim>\<open>_initialize_zmq_resources\<close> raises, if it does, and whether the
  \<^verbatim>\<open>unregister\<close>/\<^verbatim>\<open>close\<close> and the \<^verbatim>\<open>term\<close> of \<^verbatim>\<open>_cleanup_zmq_resources\<close> raise.
\<close>

datatype zmq_failure =
  ContextFailed | SocketFailed | KeyFileNotFound | KeyReadFailed | SetupFailed | RegisterFailed

record svc_env =
  zmq_failure :: "zmq_failure option"
  sock_close_raises :: bool
  ctx_term_raises :: bool

definition emit_status :: "bool \<Rightarrow> string \<Rightarrow> 'p zmq_stream_service \<Rightarrow> 'p zmq_stream_service" where
  "emit_status is_connected message s =
     s\<lparr>status_events := status_events s @ [(is_connected, message)]\<rparr>"

text \<open>
  \<^verbatim>\<open>_cleanup_zmq_resources\<close>, lines 90--109.  An attribute is reset inside its
  \<^verbatim>\<open>try\<close>, so it keeps its value when the call before it raised.
\<close>

definition cleanup_zmq_resources :: "svc_env \<Rightarrow> 'p zmq_stream_service \<Rightarrow> 'p zmq_stream_service" where
  "cleanup_zmq_resources env s =
     (let s1 = (if zmq_sock s \<noteq> None
                then (if sock_close_raises env then s else s\<lparr>zmq_sock := None\<rparr>)
                else s);
          s2 = (if zmq_ctx s1 \<noteq> None
                then (if ctx_term_raises env then s1 else s1\<lparr>zmq_ctx := None\<rparr>)
                else s1);
          s3 = (if zmq_poller s2 \<noteq> None then s2\<lparr>zmq_poller := None\<rparr> else s2)
      in s3\<lparr>zmq_initialized := False\<rparr>)"

text \<open>
  \<^verbatim>\<open>_initialize_zmq_resources\<close>, lines 51--88: the attributes assigned before the
  point of failure stay assigned until the \<^verbatim>\<open>except\<close> branch cleans up.
\<close>

definition initialize_zmq_resources ::
    "svc_env \<Rightarrow> 'p zmq_stream_service \<Rightarrow> bool \<times> 'p zmq_stream_service" where
  "initialize_zmq_resources env s =
     (let n = next_handle s
      in case zmq_failure env of
           None \<Rightarrow>
             (True, s\<lparr>zmq_ctx := Some n, zmq_sock := Some (n + 1), zmq_poller := Some (n + 2),
                      zmq_initialized := True, next_handle := n + 3\<rparr>)
         | Some ContextFailed \<Rightarrow> (False, cleanup_zmq_resources env s)
         | Some SocketFailed \<Rightarrow>
             (False, cleanup_zmq_resources env (s\<lparr>zmq_ctx := Some n, next_handle := n + 1\<rparr>))
         | Some RegisterFailed \<Rightarrow>
             (False, cleanup_zmq_resources env
                (s\<lparr>zmq_ctx := Some n, zmq_sock := Some (n + 1), zmq_poller := Some (n + 2),
                   next_handle := n + 3\<rparr>))
         | Some _ \<Rightarrow>
             (False, cleanup_zmq_resources env
                (s\<lparr>zmq_ctx := Some n, zmq_sock := Some (n + 1), next_handle := n + 2\<rparr>)))"

text \<open>
  \<^verbatim>\<open>_cleanup\<close>, lines 173--179: the two \<^verbatim>\<open>join(timeout=2.0)\<close> calls wait and assign
  nothing, so only the ZMQ clean-up changes the object.
\<close>

definition cleanup :: "svc_env \<Rightarrow> 'p zmq_stream_service \<Rightarrow> 'p zmq_stream_service" where
  "cleanup env s = cleanup_zmq_resources env s"

definition cleanup_and_notify ::
    "svc_env \<Rightarrow> string \<Rightarrow> 'p zmq_stream_service \<Rightarrow> 'p zmq_stream_service" where
  "cleanup_and_notify env status_message s = emit_status False status_message (cleanup env s)"

definition force_close_sockets :: "'p zmq_stream_service \<Rightarrow> 'p zmq_stream_service" where
  "force_close_sockets s = (if tcp_socket s \<noteq> None then s\<lparr>tcp_socket := None\<rparr> else s)"

text \<open>\<^verbatim>\<open>connect\<close>, lines 111--140.\<close>

definition connect :: "svc_env \<Rightarrow> 'p zmq_stream_service \<Rightarrow> 'p zmq_stream_service" where
  "connect env s =
     (if svc_running s then s
      else (let s1 = s\<lparr>svc_running := True, tcp_connected := False, zmq_initialized := False\<rparr>;
                s2 = emit_status False ''Connecting...'' s1;
                (ok, s3) = initialize_zmq_resources env s2
            in if \<not> ok then cleanup_and_notify env ''ZMQ Init Error'' s3
               else (let n = next_handle s3
                     in s3\<lparr>zmq_decode_thread := Some n, tcp_thread := Some (n + 1),
                           stats_timer := Some (n + 2), next_handle := n + 3\<rparr>)))"

text \<open>\<^verbatim>\<open>disconnect\<close>, lines 142--157.\<close>

definition disconnect :: "svc_env \<Rightarrow> 'p zmq_stream_service \<Rightarrow> 'p zmq_stream_service" where
  "disconnect env s =
     (let s1 = (if stats_timer s \<noteq> None then s\<lparr>stats_timer := None\<rparr> else s);
          was_running = svc_running s1;
          s2 = s1\<lparr>svc_running := False\<rparr>;
          s3 = force_close_sockets s2
      in cleanup_and_notify env
           (if was_running then ''Disconnected'' else ''Already disconnected'') s3)"

text \<open>
  The receive loop.  \<^verbatim>\<open>batch_size = 5\<close> is assigned at line 270.  One pass through
  the inner \<^verbatim>\<open>while\<close> loop of lines 298--309 makes a non-blocking
  \<^verbatim>\<open>recv_multipart\<close> and then a \<^verbatim>\<open>poll(0)\<close>; both outcomes are given, pass by pass.
  \<open>ready\<close> is whether the last poll reported the socket readable.  The result is
  \<^verbatim>\<open>received_messages\<close> and \<^verbatim>\<open>zmq_reinit_needed\<close>, or \<open>None\<close> when the outcomes
  given run out with the socket still readable.  A message that does not unpack
  into two parts, or whose tag does not decode, raises inside the \<^verbatim>\<open>try\<close> and
  ends the loop with the flag set, as any other exception there does
  (\<open>RecvFailed\<close>).
\<close>

definition batch_size :: nat where
  "batch_size = 5"

datatype recv_outcome = Received "bytes list" | Again | RecvFailed

fun drain ::
    "(bytes \<Rightarrow> string option) \<Rightarrow> (recv_outcome \<times> bool) list \<Rightarrow> bool \<Rightarrow> (string \<times> bytes) list \<Rightarrow>
     ((string \<times> bytes) list \<times> bool) option" where
  "drain decode evs False received_messages = Some (received_messages, False)"
| "drain decode [] True received_messages = None"
| "drain decode ((r, ready) # evs) True received_messages =
     (case r of
        Received parts \<Rightarrow>
          (case parts of
             [format_bytes, data] \<Rightarrow>
               (case decode format_bytes of
                  Some format_hint \<Rightarrow>
                    drain decode evs ready (received_messages @ [(format_hint, data)])
                | None \<Rightarrow> Some (received_messages, True))
           | _ \<Rightarrow> Some (received_messages, True))
      | Again \<Rightarrow> Some (received_messages, False)
      | RecvFailed \<Rightarrow> Some (received_messages, True))"

text \<open>
  One iteration of the outer \<^verbatim>\<open>while True\<close> of \<^verbatim>\<open>_zmq_receive_decode_loop\<close>, lines
  274--320, from the loop head: whether the loop goes on, the new
  \<^verbatim>\<open>zmq_reinit_needed\<close>, and the service.  \<open>ready\<close> is what \<^verbatim>\<open>poll(1000)\<close>
  reported.
\<close>

definition receive_iteration ::
    "svc_env \<Rightarrow> (bytes \<Rightarrow> string option) \<Rightarrow> (bytes \<Rightarrow> string \<Rightarrow> 'p option) \<Rightarrow> bool \<Rightarrow> bool \<Rightarrow>
     (recv_outcome \<times> bool) list \<Rightarrow> 'p zmq_stream_service \<Rightarrow>
     (loop_ctl \<times> bool \<times> 'p zmq_stream_service) option" where
  "receive_iteration env decode decode_image zmq_reinit_needed ready evs s =
     (if \<not> svc_running s then Some (Break, zmq_reinit_needed, s)
      else if zmq_reinit_needed
      then (let (ok, s') = initialize_zmq_resources env (cleanup_zmq_resources env s)
            in if ok then Some (Continue, False, s') else Some (Break, True, s'))
      else if \<not> zmq_initialized s \<or> zmq_sock s = None \<or> zmq_poller s = None
      then Some (Continue, True, s)
      else (case drain decode evs ready [] of
              None \<Rightarrow> None
            | Some (received_messages, reinit) \<Rightarrow>
                if reinit then Some (Continue, True, s)
                else (let pixmaps = List.map_filter
                            (\<lambda>(format_hint, data). decode_image data format_hint)
                            received_messages
                      in Some (Continue, False,
                           s\<lparr>frame_events := frame_events s @ pixmaps,
                             frame_count := frame_count s + int (length pixmaps)\<rparr>))))"

text \<open>An environment in which no ZMQ call raises.\<close>

definition quiet_env :: svc_env where
  "quiet_env = \<lparr>zmq_failure = None, sock_close_raises = False, ctx_term_raises = False\<rparr>"

text \<open>Six two-part messages, each followed by a poll that finds the next one.\<close>

definition six_ready :: "(recv_outcome \<times> bool) list" where
  "six_ready =
     [(Received [''jpg'', ''f1''], True), (Received [''jpg'', ''f2''], True),
      (Received [''jpg'', ''f3''], True), (Received [''jpg'', ''f4''], True),
      (Received [''jpg'', ''f5''], True), (Received [''jpg'', ''f6''], False)]"


section \<open>DesktopStreamPanel: the render buffer\<close>

text \<open>
  \<^verbatim>\<open>collections.deque(maxlen=n).append(x)\<close> appends on the right and, when the deque
  is then longer than \<open>n\<close>, discards from the left.
\<close>

definition DESKTOP_STREAM_BUFFER_SIZE :: nat where
  "DESKTOP_STREAM_BUFFER_SIZE = 2"

definition deque_append :: "nat \<Rightarrow> 'a \<Rightarrow> 'a list \<Rightarrow> 'a list" where
  "deque_append maxlen x xs = (let ys = xs @ [x] in if length ys > maxlen then tl ys else ys)"

text \<open>
  The panel's attributes that the buffer and the pacer touch.  \<open>render_timer\<close>
  says whether a timer object is set; \<open>video_label\<close> is the pixmap on display.
\<close>

record 'p desktop_stream_panel =
  active :: bool
  render_buffer :: "'p list"
  render_timer :: bool
  video_label :: "'p option"
  rendered_frame_count :: int
  buffer_len_count :: int
  black_detection_frame_counter :: int

definition init_panel :: "'p desktop_stream_panel" where
  "init_panel = \<lparr>active = False, render_buffer = [], render_timer = False, video_label = None,
     rendered_frame_count = 0, buffer_len_count = 0, black_detection_frame_counter = 0\<rparr>"

definition on_enter :: "'p desktop_stream_panel \<Rightarrow> 'p desktop_stream_panel" where
  "on_enter s = s\<lparr>active := True, video_label := None, render_buffer := [],
     rendered_frame_count := 0, buffer_len_count := 0, black_detection_frame_counter := 0,
     render_timer := True\<rparr>"

definition on_leave :: "'p desktop_stream_panel \<Rightarrow> 'p desktop_stream_panel" where
  "on_leave s = s\<lparr>active := False, render_timer := False, render_buffer := [],
     video_label := None\<rparr>"

text \<open>
  \<^verbatim>\<open>on_decoded_pixmap\<close>, lines 172--177.  The black-screen check that follows
  every fifth frame talks to the backlight manager and leaves these attributes
  alone.
\<close>

definition on_decoded_pixmap :: "'p \<Rightarrow> 'p desktop_stream_panel \<Rightarrow> 'p desktop_stream_panel" where
  "on_decoded_pixmap pixmap s =
     (if active s
      then (let s1 = s\<lparr>render_buffer :=
                         deque_append DESKTOP_STREAM_BUFFER_SIZE pixmap (render_buffer s)\<rparr>;
                s2 = s1\<lparr>black_detection_frame_counter := black_detection_frame_counter s1 + 1\<rparr>
            in if black_detection_frame_counter s2 \<ge> 5
               then s2\<lparr>black_detection_frame_counter := 0\<rparr>
               else s2)
      else s)"

text \<open>
  \<^verbatim>\<open>render_frame\<close>, lines 201--207, the pacer's tick: the \<^verbatim>\<open>buf_len\<close> it observed,
  if it looked, and the panel afterwards.
\<close>

definition render_frame :: "'p desktop_stream_panel \<Rightarrow> nat option \<times> 'p desktop_stream_panel" where
  "render_frame s =
     (if active s \<and> render_timer s
      then (let buf_len = length (render_buffer s);
                s1 = s\<lparr>buffer_len_count := buffer_len_count s + int buf_len\<rparr>
            in (Some buf_len,
                case render_buffer s1 of
                  [] \<Rightarrow> s1
                | pixmap # rest \<Rightarrow>
                    s1\<lparr>render_buffer := rest, video_label := Some pixmap,
                       rendered_frame_count := rendered_frame_count s1 + 1\<rparr>))
      else (None, s))"

datatype 'p panel_event = Enter | Leave | Decoded 'p | Tick

fun panel_step :: "'p panel_event \<Rightarrow> 'p desktop_stream_panel \<Rightarrow> 'p desktop_stream_panel" where
  "panel_step Enter s = on_enter s"
| "panel_step Leave s = on_leave s"
| "panel_step (Decoded pixmap) s = on_decoded_pixmap pixmap s"
| "panel_step Tick s = snd (render_frame s)"

fun panel_run :: "'p panel_event list \<Rightarrow> 'p desktop_stream_panel \<Rightarrow> 'p desktop_stream_panel" where
  "panel_run [] s = s"
| "panel_run (e # es) s = panel_run es (panel_step e s)"

text \<open>A panel showing nothing, with two frames buffered.\<close>

definition full_panel :: "nat desktop_stream_panel" where
  "full_panel = \<lparr>active = True, render_buffer = [1, 2], render_timer = True, video_label = None,
     rendered_frame_count = 0, buffer_len_count = 0, black_detection_frame_counter = 0\<rparr>"


section \<open>Properties of the change detection\<close>

lemma detect_change_same:
  "last_frame_hash w = Some h \<Longrightarrow>
   detect_change h w =
     (if frame_skip_count w \<ge> 9 then (True, w\<lparr>frame_skip_count := 0\<rparr>)
      else (False, w\<lparr>frame_skip_count := frame_skip_count w + 1\<rparr>))"
  by (simp add: detect_change_def)

lemma detect_change_new:
  "last_frame_hash w \<noteq> Some h \<Longrightarrow>
   detect_change h w = (True, w\<lparr>last_frame_hash := Some h, frame_skip_count := 0\<rparr>)"
  by (auto simp add: detect_change_def)

lemma send_decisions_Cons:
  "send_decisions (h # hs) w =
     (fst (detect_change h w) # fst (send_decisions hs (snd (detect_change h w))),
      snd (send_decisions hs (snd (detect_change h w))))"
  by (simp add: split_beta)

lemma sends_bound:
  "last_frame_hash w = Some h \<Longrightarrow> frame_skip_count w \<le> 9 \<Longrightarrow>
   10 * int (count_list (fst (send_decisions (replicate n h) w)) True)
     \<le> max 0 (frame_skip_count w + int n)"
proof (induction n arbitrary: w)
  case 0
  then show ?case by simp
next
  case (Suc n)
  show ?case
  proof (cases "frame_skip_count w \<ge> 9")
    case True
    let ?w' = "w\<lparr>frame_skip_count := 0\<rparr>"
    have "10 * int (count_list (fst (send_decisions (replicate n h) ?w')) True) \<le> max 0 (frame_skip_count ?w' + int n)"
      by (rule Suc.IH) (use Suc.prems in simp_all)
    with True Suc.prems show ?thesis
      by (simp add: detect_change_same send_decisions_Cons del: send_decisions.simps)
  next
    case False
    let ?w' = "w\<lparr>frame_skip_count := frame_skip_count w + 1\<rparr>"
    have "10 * int (count_list (fst (send_decisions (replicate n h) ?w')) True) \<le> max 0 (frame_skip_count ?w' + int n)"
      by (rule Suc.IH) (use Suc.prems False in simp_all)
    with False Suc.prems show ?thesis
      by (simp add: detect_change_same send_decisions_Cons add.commute add.left_commute del: send_decisions.simps)
  qed
qed

lemma sends_le_one:
  assumes "n < 10"
  shows "count_list (fst (send_decisions (replicate n h) w)) True \<le> 1"
proof (cases n)
  case 0
  then show ?thesis by simp
next
  case (Suc m)
  have m: "m < 9" using assms Suc by simp
  show ?thesis
  proof (cases "last_frame_hash w = Some h \<and> frame_skip_count w < 9")
    case True
    then have "10 * int (count_list (fst (send_decisions (replicate n h) w)) True) \<le> max 0 (frame_skip_count w + int n)"
      by (intro sends_bound) simp_all
    with True assms show ?thesis by linarith
  next
    case False
    define w' where "w' = snd (detect_change h w)"
    have d: "fst (detect_change h w) = True" and l: "last_frame_hash w' = Some h" and c: "frame_skip_count w' = 0"
      using False unfolding w'_def
      by (cases "last_frame_hash w = Some h"; simp add: detect_change_same detect_change_new)+
    have "10 * int (count_list (fst (send_decisions (replicate m h) w')) True) \<le> max 0 (frame_skip_count w' + int m)"
      by (rule sends_bound) (simp_all add: l c)
    with m c have "count_list (fst (send_decisions (replicate m h) w')) True = 0" by simp
    with d Suc show ?thesis 
      by (simp add: send_decisions_Cons w'_def del: send_decisions.simps)
  qed
qed

lemma quiet_run:
  "last_frame_hash w = Some h \<Longrightarrow> frame_skip_count w + int n \<le> 9 \<Longrightarrow>
   send_decisions (replicate n h) w =
     (replicate n False, w\<lparr>frame_skip_count := frame_skip_count w + int n\<rparr>)"
proof (induction n arbitrary: w)
  case 0
  then show ?case by simp
next
  case (Suc n)
  let ?w' = "w\<lparr>frame_skip_count := frame_skip_count w + 1\<rparr>"
  have "send_decisions (replicate n h) ?w' = (replicate n False, ?w'\<lparr>frame_skip_count := frame_skip_count ?w' + int n\<rparr>)"
    by (rule Suc.IH) (use Suc.prems in simp_all)
  with Suc.prems show ?case
    by (simp add: detect_change_same add.commute add.left_commute)
qed

lemma send_decisions_append:
  "send_decisions (xs @ ys) w =
    (fst (send_decisions xs w) @ fst (send_decisions ys (snd (send_decisions xs w))),
     snd (send_decisions ys (snd (send_decisions xs w))))"
  by (induction xs arbitrary: w) (simp_all add: split_beta)

lemma tenth_forced:
  assumes "last_frame_hash w = Some h" "frame_skip_count w = 0"
  shows "send_decisions (replicate 10 h) w = (replicate 9 False @ [True], w)"
proof -
  have r: "replicate 10 h = replicate 9 h @ [h]"
    by (simp add: replicate_append_same eval_nat_numeral)
  have q: "send_decisions (replicate 9 h) w = (replicate 9 False, w\<lparr>frame_skip_count := 9\<rparr>)"
    using quiet_run[of w h 9] assms by simp
  have "detect_change h (w\<lparr>frame_skip_count := 9\<rparr>) = (True, w)"
    using assms by (simp add: detect_change_same)
  then show ?thesis
    unfolding r send_decisions_append q by simp
qed

lemma worker_run_Cons:
  "worker_run ie rs ph cfg (f # fs) w =
     ((case fst (worker_cycle ie rs ph cfg True f w) of None \<Rightarrow> [] | Some m \<Rightarrow> [m])
        @ fst (worker_run ie rs ph cfg fs (snd (worker_cycle ie rs ph cfg True f w))),
      snd (worker_run ie rs ph cfg fs (snd (worker_cycle ie rs ph cfg True f w))))"
  by (simp add: split_beta)

lemma worker_cycle_decision:
  "snd (worker_cycle ie rs ph cfg True f w) = snd (detect_change (ph (fst f)) w)"
  "\<not> fst (detect_change (ph (fst f)) w) \<Longrightarrow> fst (worker_cycle ie rs ph cfg True f w) = None"
  by (simp_all add: worker_cycle_def network_send_def split_beta)

lemma worker_run_decisions:
  "length (fst (worker_run ie rs ph cfg fs w))
     \<le> count_list (fst (send_decisions (map (\<lambda>f. ph (fst f)) fs) w)) True
   \<and> snd (worker_run ie rs ph cfg fs w) = snd (send_decisions (map (\<lambda>f. ph (fst f)) fs) w)"
proof (induction fs arbitrary: w)
  case Nil
  then show ?case by simp
next
  case (Cons f fs)
  let ?w' = "snd (detect_change (ph (fst f)) w)"
  note IH = Cons.IH[of ?w']
  show ?case
  proof (cases "fst (detect_change (ph (fst f)) w)")
    case True
    have "length (case fst (worker_cycle ie rs ph cfg True f w) of None \<Rightarrow> [] | Some m \<Rightarrow> [m]) \<le> 1"
      by (simp split: option.splits)
    with True IH show ?thesis
      by (simp add: worker_run_Cons send_decisions_Cons worker_cycle_decision del: worker_run.simps send_decisions.simps)
  next
    case False
    with IH show ?thesis
      by (simp add: worker_run_Cons send_decisions_Cons worker_cycle_decision del: worker_run.simps send_decisions.simps)
  qed
qed

lemma same_hash_replicate:
  "\<forall>f \<in> set fs. ph (fst f) = h \<Longrightarrow> map (\<lambda>f. ph (fst f)) fs = replicate (length fs) h"
  by (induction fs) simp_all

lemma network_send_forced:
  assumes "last_frame_hash w = Some h" "frame_skip_count w = 9" "ph img = h"
  shows "network_send ie rs ph cfg (img, acc) w
           = (publish_frame ie rs cfg img acc, w\<lparr>frame_skip_count := 0\<rparr>)"
  using assms by (simp add: network_send_def detect_change_same)

text \<open>
  Claim C1.  While publishing is active, a run of fewer than ten successive
  captured frames that all have the same content hash leads to at most one
  decision to send and so to at most one published message, whatever the worker's
  state at the start of the run.  After a frame was sent and the streak counter
  stands at zero, nine unchanged frames are suppressed and the tenth is sent,
  which leaves the counter at zero again; at a streak of nine the next unchanged
  frame goes through the same publishing step as a changed one.
\<close>

theorem forced_refresh_after_ten_unchanged:
  "((\<forall>f \<in> set frames. py_hash (fst f) = h) \<and> length frames < 10
      \<longrightarrow> count_list (fst (send_decisions (map (\<lambda>f. py_hash (fst f)) frames) w)) True \<le> 1
        \<and> length (fst (worker_run imencode resize py_hash cfg frames w)) \<le> 1)
   \<and> (last_frame_hash w = Some h \<and> frame_skip_count w = 0
      \<longrightarrow> send_decisions (replicate 10 h) w = (replicate 9 False @ [True], w))
   \<and> (last_frame_hash w = Some h \<and> frame_skip_count w = 9 \<and> py_hash img = h
      \<longrightarrow> network_send imencode resize py_hash cfg (img, accepted) w
            = (publish_frame imencode resize cfg img accepted, w\<lparr>frame_skip_count := 0\<rparr>))"
proof (intro conjI impI)
  assume a: "(\<forall>f \<in> set frames. py_hash (fst f) = h) \<and> length frames < 10"
  then have m: "map (\<lambda>f. py_hash (fst f)) frames = replicate (length frames) h"
    by (simp add: same_hash_replicate)
  show d: "count_list (fst (send_decisions (map (\<lambda>f. py_hash (fst f)) frames) w)) True \<le> 1"
    unfolding m using a by (intro sends_le_one) simp
  have "length (fst (worker_run imencode resize py_hash cfg frames w))
          \<le> count_list (fst (send_decisions (map (\<lambda>f. py_hash (fst f)) frames) w)) True"
    using worker_run_decisions by blast
  with d show "length (fst (worker_run imencode resize py_hash cfg frames w)) \<le> 1"
    by linarith
next
  assume "last_frame_hash w = Some h \<and> frame_skip_count w = 0"
  then show "send_decisions (replicate 10 h) w = (replicate 9 False @ [True], w)"
    by (simp add: tenth_forced)
next
  assume "last_frame_hash w = Some h \<and> frame_skip_count w = 9 \<and> py_hash img = h"
  then show "network_send imencode resize py_hash cfg (img, accepted) w
            = (publish_frame imencode resize cfg img accepted, w\<lparr>frame_skip_count := 0\<rparr>)"
    by (simp add: network_send_forced)
qed

text \<open>The statement of C1 at a run of three frames of hash 7, and at streaks 0 and 9.\<close>

theorem forced_refresh_after_ten_unchanged_witness:
  "length (fst (worker_run (\<lambda>ext img ps. (True, ext)) (\<lambda>img sz. img) int DEFAULT_CONFIG
       [(7::nat, True), (7, True), (7, True)] init_capture_worker)) \<le> 1
   \<and> send_decisions (replicate 10 7) \<lparr>last_frame_hash = Some 7, frame_skip_count = 0\<rparr>
       = (replicate 9 False @ [True], \<lparr>last_frame_hash = Some 7, frame_skip_count = 0\<rparr>)
   \<and> network_send (\<lambda>ext img ps. (True, ext)) (\<lambda>img sz. img) int DEFAULT_CONFIG (7::nat, True)
         \<lparr>last_frame_hash = Some 7, frame_skip_count = 9\<rparr>
       = (Some [''jpg'', ''.jpg''], \<lparr>last_frame_hash = Some 7, frame_skip_count = 0\<rparr>)"
proof -
  have p: "publish_frame (\<lambda>ext img ps. (True, ext)) (\<lambda>img sz. img) DEFAULT_CONFIG (7::nat) True
             = Some [''jpg'', ''.jpg'']"
    by (simp add: publish_frame_def encode_frame_def DEFAULT_CONFIG_def)
  show ?thesis
    using forced_refresh_after_ten_unchanged
            [of "[(7::nat, True), (7, True), (7, True)]" int 7 init_capture_worker
                "\<lambda>ext img ps. (True, ext)" "\<lambda>img sz. img" DEFAULT_CONFIG 7 True]
          forced_refresh_after_ten_unchanged
            [of "[]" int 7 "\<lparr>last_frame_hash = Some 7, frame_skip_count = 0\<rparr>"
                "\<lambda>ext img ps. (True, ext)" "\<lambda>img sz. img" DEFAULT_CONFIG "7::nat" True]
          forced_refresh_after_ten_unchanged
            [of "[]" int 7 "\<lparr>last_frame_hash = Some 7, frame_skip_count = 9\<rparr>"
                "\<lambda>ext img ps. (True, ext)" "\<lambda>img sz. img" DEFAULT_CONFIG "7::nat" True]
    by (simp add: p)
qed


section \<open>Properties of the key material\<close>

lemma load_existing_key_ok:
  assumes "files zmq_secret_key_file = Some sk" "\<not> read_fails env zmq_secret_key_file"
    "curve_public env sk = Some pk"
  shows "load_existing_key env files
           = (Some (pk, sk), [Info ''Loading existing ZMQ secret key from file.''])"
  using assms by (simp add: load_existing_key_def)

lemma load_existing_key_bad:
  assumes "files zmq_secret_key_file = Some sk"
    "read_fails env zmq_secret_key_file \<or> curve_public env sk = None"
  shows "load_existing_key env files
           = (None, [Info ''Loading existing ZMQ secret key from file.'',
                     Error ''Failed to load ZMQ secret key. Generating new pair.''])"
  using assms by (auto simp add: load_existing_key_def)

lemma load_existing_key_absent:
  assumes "files zmq_secret_key_file = None"
  shows "load_existing_key env files = (None, [])"
  using assms by (simp add: load_existing_key_def)

lemma generate_result:
  assumes "fst (load_existing_key env files) = None"
  shows "fst (load_or_generate_curve_keys env files) = curve_keypair env"
    and "\<not> write_fails env zmq_secret_key_file \<Longrightarrow> \<not> write_fails env zmq_public_key_file \<Longrightarrow>
         fst (snd (load_or_generate_curve_keys env files))
           = files(zmq_secret_key_file \<mapsto> snd (curve_keypair env),
                   zmq_public_key_file \<mapsto> fst (curve_keypair env))"
    and "set (snd (load_existing_key env files))
           \<subseteq> set (snd (snd (load_or_generate_curve_keys env files)))"
proof -
  obtain lines where l: "load_existing_key env files = (None, lines)"
    using assms by (cases "load_existing_key env files") simp
  show "fst (load_or_generate_curve_keys env files) = curve_keypair env"
    by (simp add: load_or_generate_curve_keys_def l split_beta)
  show "set (snd (load_existing_key env files))
           \<subseteq> set (snd (snd (load_or_generate_curve_keys env files)))"
    by (auto simp add: load_or_generate_curve_keys_def l split_beta)
  show "\<not> write_fails env zmq_secret_key_file \<Longrightarrow> \<not> write_fails env zmq_public_key_file \<Longrightarrow>
         fst (snd (load_or_generate_curve_keys env files))
           = files(zmq_secret_key_file \<mapsto> snd (curve_keypair env),
                   zmq_public_key_file \<mapsto> fst (curve_keypair env))"
    by (simp add: load_or_generate_curve_keys_def l save_key_def split_beta)
qed

text \<open>
  Against claim C2 as stated: with a secret-key file on disk that the library
  rejects, the function hands back the freshly generated pair as its ordinary
  result and has overwritten the stored secret key with the new one.  Nothing in
  the result tells the caller that the old key was dropped.
\<close>

theorem corrupt_key_file_is_regenerated:
  "fst (load_or_generate_curve_keys rejecting_env [zmq_secret_key_file \<mapsto> ''garbage''])
     = (''PUB-NEW'', ''SEC-NEW'')
   \<and> fst (snd (load_or_generate_curve_keys rejecting_env [zmq_secret_key_file \<mapsto> ''garbage'']))
        zmq_secret_key_file = Some ''SEC-NEW''"
  by (simp add: load_or_generate_curve_keys_def load_existing_key_def save_key_def
      rejecting_env_def zmq_secret_key_file_def zmq_public_key_file_def)

text \<open>
  Claim C2, amended.  When the secret-key file exists, can be read and is
  accepted by the library, the result is the stored secret key with the public
  key derived from it, no file is written and nothing is generated.  When the
  file exists but cannot be read or is rejected, the failure is written to the
  log as an error and the function itself returns a freshly generated pair,
  which it saves to both files when the writes succeed.  When there is no file,
  it generates and saves likewise.
\<close>

theorem load_or_generate_curve_keys_cases:
  "(files zmq_secret_key_file = Some sk \<and> \<not> read_fails env zmq_secret_key_file
      \<and> curve_public env sk = Some pk
      \<longrightarrow> load_or_generate_curve_keys env files
            = ((pk, sk), files, [Info ''Loading existing ZMQ secret key from file.'']))
   \<and> (files zmq_secret_key_file = Some sk
      \<and> (read_fails env zmq_secret_key_file \<or> curve_public env sk = None)
      \<longrightarrow> fst (load_or_generate_curve_keys env files) = curve_keypair env
        \<and> Error ''Failed to load ZMQ secret key. Generating new pair.''
            \<in> set (snd (snd (load_or_generate_curve_keys env files)))
        \<and> (\<not> write_fails env zmq_secret_key_file \<and> \<not> write_fails env zmq_public_key_file
            \<longrightarrow> fst (snd (load_or_generate_curve_keys env files))
                  = files(zmq_secret_key_file \<mapsto> snd (curve_keypair env),
                          zmq_public_key_file \<mapsto> fst (curve_keypair env))))
   \<and> (files zmq_secret_key_file = None
      \<longrightarrow> fst (load_or_generate_curve_keys env files) = curve_keypair env
        \<and> (\<not> write_fails env zmq_secret_key_file \<and> \<not> write_fails env zmq_public_key_file
            \<longrightarrow> fst (snd (load_or_generate_curve_keys env files))
                  = files(zmq_secret_key_file \<mapsto> snd (curve_keypair env),
                          zmq_public_key_file \<mapsto> fst (curve_keypair env))))"
proof (intro conjI impI)
  assume "files zmq_secret_key_file = Some sk \<and> \<not> read_fails env zmq_secret_key_file
      \<and> curve_public env sk = Some pk"
  then show "load_or_generate_curve_keys env files
            = ((pk, sk), files, [Info ''Loading existing ZMQ secret key from file.''])"
    by (simp add: load_or_generate_curve_keys_def load_existing_key_ok)
next
  assume a: "files zmq_secret_key_file = Some sk
      \<and> (read_fails env zmq_secret_key_file \<or> curve_public env sk = None)"
  have l: "load_existing_key env files
           = (None, [Info ''Loading existing ZMQ secret key from file.'',
                     Error ''Failed to load ZMQ secret key. Generating new pair.''])"
    using a load_existing_key_bad[of files sk env] by blast
  then have n: "fst (load_existing_key env files) = None" by simp
  show "fst (load_or_generate_curve_keys env files) = curve_keypair env"
    using n by (rule generate_result)
  show "Error ''Failed to load ZMQ secret key. Generating new pair.''
            \<in> set (snd (snd (load_or_generate_curve_keys env files)))"
    using generate_result(3)[OF n] l by auto
  assume "\<not> write_fails env zmq_secret_key_file \<and> \<not> write_fails env zmq_public_key_file"
  then show "fst (snd (load_or_generate_curve_keys env files))
                  = files(zmq_secret_key_file \<mapsto> snd (curve_keypair env),
                          zmq_public_key_file \<mapsto> fst (curve_keypair env))"
    using generate_result(2)[OF n] by simp
next
  assume a: "files zmq_secret_key_file = None"
  then have n: "fst (load_existing_key env files) = None"
    by (simp add: load_existing_key_absent)
  show "fst (load_or_generate_curve_keys env files) = curve_keypair env"
    using n by (rule generate_result)
  assume "\<not> write_fails env zmq_secret_key_file \<and> \<not> write_fails env zmq_public_key_file"
  then show "fst (snd (load_or_generate_curve_keys env files))
                  = files(zmq_secret_key_file \<mapsto> snd (curve_keypair env),
                          zmq_public_key_file \<mapsto> fst (curve_keypair env))"
    using generate_result(2)[OF n] by simp
qed

text \<open>The three cases of C2 at a good key, a rejected key and an empty directory.\<close>

theorem load_or_generate_curve_keys_cases_witness:
  "load_or_generate_curve_keys accepting_env [zmq_secret_key_file \<mapsto> ''abc'']
     = ((''pub-of-abc'', ''abc''), [zmq_secret_key_file \<mapsto> ''abc''],
        [Info ''Loading existing ZMQ secret key from file.''])
   \<and> fst (load_or_generate_curve_keys rejecting_env [zmq_secret_key_file \<mapsto> ''garbage''])
       = (''PUB-NEW'', ''SEC-NEW'')
   \<and> Error ''Failed to load ZMQ secret key. Generating new pair.''
       \<in> set (snd (snd (load_or_generate_curve_keys rejecting_env
                          [zmq_secret_key_file \<mapsto> ''garbage''])))
   \<and> fst (snd (load_or_generate_curve_keys rejecting_env [zmq_secret_key_file \<mapsto> ''garbage'']))
       = [zmq_secret_key_file \<mapsto> ''SEC-NEW'', zmq_public_key_file \<mapsto> ''PUB-NEW'']
   \<and> fst (load_or_generate_curve_keys accepting_env Map.empty) = (''PUB-NEW'', ''SEC-NEW'')
   \<and> fst (snd (load_or_generate_curve_keys accepting_env Map.empty))
       = [zmq_secret_key_file \<mapsto> ''SEC-NEW'', zmq_public_key_file \<mapsto> ''PUB-NEW'']"
  using load_or_generate_curve_keys_cases
          [of "[zmq_secret_key_file \<mapsto> ''abc'']" "''abc''" accepting_env "''pub-of-abc''"]
        load_or_generate_curve_keys_cases
          [of "[zmq_secret_key_file \<mapsto> ''garbage'']" "''garbage''" rejecting_env "''x''"]
        load_or_generate_curve_keys_cases
          [of "Map.empty" "''x''" accepting_env "''x''"]
  by (simp add: accepting_env_def rejecting_env_def)


section \<open>Properties of the heartbeat reader\<close>

lemma dict_has_delete: "dict_has k (AList.delete k' d) = (dict_has k d \<and> k \<noteq> k')"
  by (auto simp add: dict_has_def AList.delete_keys)

lemma dict_has_update: "dict_has k (AList.update k' v d) = (dict_has k d \<or> k = k')"
  by (auto simp add: dict_has_def AList.update_keys)

lemma hb_drop_removes:
  "\<not> dict_has addr (clients (hb_drop addr s))"
  by (simp add: hb_drop_def Let_def dict_has_delete)

lemma hb_drop_removes_socket:
  assumes "sockets_have_records s"
  shows "\<not> dict_has addr (client_sockets (hb_drop addr s))"
proof (cases "dict_has addr (clients s)")
  case True
  then show ?thesis by (simp add: hb_drop_def Let_def dict_has_delete)
next
  case False
  with assms have "\<not> dict_has addr (client_sockets s)"
    unfolding sockets_have_records_def socket_keys_def record_keys_def dict_has_def by blast
  with False show ?thesis by (simp add: hb_drop_def)
qed

lemma heartbeat_failure_drops_record:
  assumes "heartbeat_test addr s" "r = RecvTimeout \<or> r = RecvError"
  shows "heartbeat_check addr conn ((r, now) # evs) s = (True, conn_close conn (hb_drop addr s))"
  using assms by (auto simp add: heartbeat_body_def)

text \<open>
  Claim C3 at a payload other than \<^verbatim>\<open>b"hb"\<close>: the reader returns and closes the
  connection, and the client's entries are still in both maps.
\<close>

theorem unexpected_payload_keeps_record:
  "heartbeat_check panel_addr 1 [(Data ''bye'', 1)]
      (accept_client panel_addr 1 0 (start_checking init_checker))
     = (True, \<lparr>running = True, clients = [(panel_addr, 0)],
               client_sockets = [(panel_addr, 1)], closed_conns = [1]\<rparr>)"
  by (simp add: heartbeat_body_def heartbeat_test_def dict_has_def accept_client_def
      start_checking_def init_checker_def conn_close_def)

text \<open>The same for the empty payload a \<^verbatim>\<open>recv\<close> returns when the peer has closed.\<close>

lemma peer_close_keeps_record:
  "heartbeat_check panel_addr 1 [(Data '''', 1)]
      (accept_client panel_addr 1 0 (start_checking init_checker))
     = (True, \<lparr>running = True, clients = [(panel_addr, 0)],
               client_sockets = [(panel_addr, 1)], closed_conns = [1]\<rparr>)"
  by (simp add: heartbeat_body_def heartbeat_test_def dict_has_def accept_client_def
      start_checking_def init_checker_def conn_close_def)



section \<open>Properties of the published message\<close>

lemma supported_format_message:
  assumes "encoding_format cfg \<in> {''jpg'', ''png'', ''webp''}"
    "publish_frame imencode resize cfg img accepted = Some msg"
  shows "\<exists>flag q. msg = [encoding_format cfg,
            snd (imencode (CHR ''.'' # encoding_format cfg) (resize img (target_resolution cfg)) [(flag, q)])]"
  using assms
  by (auto simp add: publish_frame_def encode_frame_def Let_def split_beta split: if_splits)

text \<open>
  Claim C5 at the configuration value \<^verbatim>\<open>"bmp"\<close>: the payload is the JPEG encoder's
  output and the tag that goes out with it is \<^verbatim>\<open>bmp\<close>.
\<close>

theorem unsupported_format_tag:
  "publish_frame imencode resize (cfg\<lparr>encoding_format := ''bmp''\<rparr>) img accepted
     = (if fst (imencode ''.jpg'' (resize img (target_resolution cfg))
                   [(IMWRITE_JPEG_QUALITY, jpeg_quality cfg * 10)]) \<and> accepted
        then Some [''bmp'', snd (imencode ''.jpg'' (resize img (target_resolution cfg))
                                   [(IMWRITE_JPEG_QUALITY, jpeg_quality cfg * 10)])]
        else None)"
  by (simp add: publish_frame_def encode_frame_def split_beta)



section \<open>Properties of the receive loop\<close>

text \<open>
  Claim C6 with six messages available one after the other: one wake of the loop
  reads all six, one more than \<open>batch_size\<close>.
\<close>

theorem drain_exceeds_batch_size:
  "drain Some six_ready True []
     = Some ([(''jpg'', ''f1''), (''jpg'', ''f2''), (''jpg'', ''f3''), (''jpg'', ''f4''),
              (''jpg'', ''f5''), (''jpg'', ''f6'')], False)
   \<and> batch_size < 6"
  by (simp add: six_ready_def batch_size_def)


section \<open>Properties of the connection count\<close>

lemma guarded_socket_delete:
  "(if dict_has a (client_sockets s1)
    then s1\<lparr>client_sockets := AList.delete a (client_sockets s1)\<rparr> else s1)
   = s1\<lparr>client_sockets := AList.delete a (client_sockets s1)\<rparr>"
  by (simp add: dict_has_def)

lemma filter_delete:
  "filter (\<lambda>(b, t). b \<notin> set as) (AList.delete a d) = filter (\<lambda>(b, t). b \<notin> set (a # as)) d"
  by (induction d) (auto simp add: AList.delete_eq)

lemma expired_addrs_mem:
  "(a \<in> set (expired_addrs now cs)) = (\<exists>t. (a, t) \<in> set cs \<and> now - t > 8)"
  by (induction cs) (auto simp add: expired_addrs_def)

lemma prune_expired_filter:
  assumes "set as \<subseteq> set (map fst (clients s))" "distinct as"
  shows "prune_expired as s =
           (None, s\<lparr>clients := filter (\<lambda>(a, t). a \<notin> set as) (clients s),
                    client_sockets := filter (\<lambda>(a, c). a \<notin> set as) (client_sockets s)\<rparr>)"
  using assms
proof (induction as arbitrary: s)
  case Nil
  then show ?case by simp
next
  case (Cons a as)
  let ?s2 = "s\<lparr>clients := AList.delete a (clients s),
               client_sockets := AList.delete a (client_sockets s)\<rparr>"
  have has: "dict_has a (clients s)"
    using Cons.prems by (simp add: dict_has_def)
  have sub: "set as \<subseteq> set (map fst (clients ?s2))"
    using Cons.prems by (auto simp add: AList.delete_keys)
  have IH: "prune_expired as ?s2 =
           (None, ?s2\<lparr>clients := filter (\<lambda>(a, t). a \<notin> set as) (clients ?s2),
                    client_sockets := filter (\<lambda>(a, c). a \<notin> set as) (client_sockets ?s2)\<rparr>)"
    using sub Cons.prems by (intro Cons.IH) simp_all
  have step: "prune_expired (a # as) s = prune_expired as ?s2"
    using has by (simp add: dict_del_def guarded_socket_delete Let_def)
  show ?case
    unfolding step IH by (simp add: filter_delete)
qed

lemma expired_addrs_props:
  assumes "distinct (map fst cs)"
  shows "distinct (expired_addrs now cs)"
    and "set (expired_addrs now cs) \<subseteq> set (map fst cs)"
    and "filter (\<lambda>(a, t). a \<notin> set (expired_addrs now cs)) cs
           = filter (\<lambda>(a, t). \<not> now - t > 8) cs"
proof -
  show "distinct (expired_addrs now cs)"
    using assms unfolding expired_addrs_def by (simp add: distinct_map_filter)
  show "set (expired_addrs now cs) \<subseteq> set (map fst cs)"
    unfolding expired_addrs_def by auto
  have "\<And>a t. (a, t) \<in> set cs \<Longrightarrow> (a \<in> set (expired_addrs now cs)) = (now - t > 8)"
  proof -
    fix a t assume m: "(a, t) \<in> set cs"
    have u: "\<And>t'. (a, t') \<in> set cs \<Longrightarrow> t' = t"
      using eq_key_imp_eq_value[OF assms _ m] by simp
    show "(a \<in> set (expired_addrs now cs)) = (now - t > 8)"
      unfolding expired_addrs_mem using m u by blast
  qed
  then show "filter (\<lambda>(a, t). a \<notin> set (expired_addrs now cs)) cs
           = filter (\<lambda>(a, t). \<not> now - t > 8) cs"
    by (intro filter_cong) auto
qed

lemma get_connected_count_eq:
  assumes "distinct (map fst (clients s))"
  shows "get_connected_count now s =
           (Inr (length (filter (\<lambda>(a, t). \<not> now - t > 8) (clients s))),
            s\<lparr>clients := filter (\<lambda>(a, t). \<not> now - t > 8) (clients s),
              client_sockets := filter (\<lambda>(a, c). a \<notin> set (expired_addrs now (clients s)))
                                  (client_sockets s)\<rparr>)"
  unfolding get_connected_count_def
  using prune_expired_filter[OF expired_addrs_props(2)[OF assms] expired_addrs_props(1)[OF assms], of now]
        expired_addrs_props(3)[OF assms, of now]
  by simp

text \<open>
  Claim C4.  For a record map with one entry per address,
  \<^verbatim>\<open>get_connected_count\<close> returns the number of records left after it removed
  exactly those whose last heartbeat is more than 8 seconds old; a record within
  the threshold stays.  When a single address has timed out, that address and no
  other leaves the map, the map is one shorter, and the count returned is one
  less than the count a call returned before the timeout.
\<close>

theorem get_connected_count_prunes_expired:
  assumes "distinct (map fst (clients s))"
  shows
  "fst (get_connected_count now s) = Inr (length (clients (snd (get_connected_count now s))))
   \<and> clients (snd (get_connected_count now s))
       = filter (\<lambda>(addr, last_time). \<not> now - last_time > 8) (clients s)
   \<and> (\<forall>addr last_time. (addr, last_time) \<in> set (clients s) \<and> now - last_time \<le> 8
         \<longrightarrow> (addr, last_time) \<in> set (clients (snd (get_connected_count now s))))
   \<and> (expired_addrs now (clients s) = [a] \<longrightarrow>
         a \<in> record_keys s
       \<and> record_keys (snd (get_connected_count now s)) = record_keys s - {a}
       \<and> length (clients (snd (get_connected_count now s))) + 1 = length (clients s)
       \<and> (\<forall>earlier. expired_addrs earlier (clients s) = [] \<longrightarrow>
             get_connected_count earlier s = (Inr (length (clients s)), s)
           \<and> fst (get_connected_count now (snd (get_connected_count earlier s)))
               = Inr (length (clients s) - 1)))"
proof -
  let ?keep = "\<lambda>(addr::addr, last_time::real). \<not> now - last_time > 8"
  note eq = get_connected_count_eq[OF assms]
  have c: "clients (snd (get_connected_count now s)) = filter ?keep (clients s)"
    by (simp add: eq)
  have r: "fst (get_connected_count now s) = Inr (length (filter ?keep (clients s)))"
    by (simp add: eq)
  have one: "a \<in> record_keys s
       \<and> record_keys (snd (get_connected_count now s)) = record_keys s - {a}
       \<and> length (clients (snd (get_connected_count now s))) + 1 = length (clients s)
       \<and> (\<forall>earlier. expired_addrs earlier (clients s) = [] \<longrightarrow>
             get_connected_count earlier s = (Inr (length (clients s)), s)
           \<and> fst (get_connected_count now (snd (get_connected_count earlier s)))
               = Inr (length (clients s) - 1))"
    if e: "expired_addrs now (clients s) = [a]"
  proof -
    have a_in: "a \<in> record_keys s"
      using expired_addrs_props(2)[OF assms, of now] e by (simp add: record_keys_def)
    have f: "filter ?keep (clients s)
               = filter (\<lambda>(b, t). b \<notin> set (expired_addrs now (clients s))) (clients s)"
      using expired_addrs_props(3)[OF assms, of now] by simp
    have keys: "record_keys (snd (get_connected_count now s)) = record_keys s - {a}"
      unfolding record_keys_def c f e by force
    have "filter (\<lambda>x. \<not> ?keep x) (clients s)
            = filter (\<lambda>(addr, last_time). now - last_time > 8) (clients s)"
      by (rule filter_cong) auto
    then have "length (filter (\<lambda>x. \<not> ?keep x) (clients s)) = length (expired_addrs now (clients s))"
      by (simp add: expired_addrs_def)
    then have "length (filter (\<lambda>x. \<not> ?keep x) (clients s)) = 1"
      by (simp add: e)
    moreover have "length (filter ?keep (clients s)) + length (filter (\<lambda>x. \<not> ?keep x) (clients s))
                     = length (clients s)"
      by (rule sum_length_filter_compl)
    ultimately have len: "length (filter ?keep (clients s)) + 1 = length (clients s)"
      by simp
    have early: "get_connected_count earlier s = (Inr (length (clients s)), s)"
      if "expired_addrs earlier (clients s) = []" for earlier
    proof -
      have "filter (\<lambda>(a, t). \<not> earlier - t > 8) (clients s) = clients s"
        using expired_addrs_props(3)[OF assms, of earlier] that by simp
      then show ?thesis
        using get_connected_count_eq[OF assms, of earlier] that by simp
    qed
    have later: "fst (get_connected_count now s) = Inr (length (clients s) - 1)"
      using r len by simp
    show ?thesis
      using a_in keys len early later by (simp add: c)
  qed
  have fresh: "(addr, last_time) \<in> set (clients (snd (get_connected_count now s)))"
    if "(addr, last_time) \<in> set (clients s) \<and> now - last_time \<le> 8" for addr last_time
    using that by (simp add: c)
  have first: "fst (get_connected_count now s)
                 = Inr (length (clients (snd (get_connected_count now s))))"
    by (simp add: r c)
  from first c fresh one show ?thesis
    by blast
qed

text \<open>C4 at two clients, of which the first has timed out at time 9 and none at time 6.\<close>

theorem get_connected_count_prunes_expired_witness:
  "distinct (map fst (clients two_clients))
   \<and> get_connected_count 9 two_clients
       = (Inr 1, two_clients\<lparr>clients := [(second_addr, 5)], client_sockets := [(second_addr, 2)]\<rparr>)
   \<and> expired_addrs 9 (clients two_clients) = [panel_addr]
   \<and> expired_addrs 6 (clients two_clients) = []
   \<and> get_connected_count 6 two_clients = (Inr 2, two_clients)
   \<and> record_keys (snd (get_connected_count 9 two_clients)) = {second_addr}"
proof -
  have d: "distinct (map fst (clients two_clients))"
    by (simp add: two_clients_def panel_addr_def second_addr_def)
  have e9: "expired_addrs 9 (clients two_clients) = [panel_addr]"
    by (simp add: two_clients_def expired_addrs_def)
  have e6: "expired_addrs 6 (clients two_clients) = []"
    by (simp add: two_clients_def expired_addrs_def)
  have ne: "panel_addr \<noteq> second_addr"
    by (simp add: panel_addr_def second_addr_def)
  have g: "get_connected_count 9 two_clients
       = (Inr 1, two_clients\<lparr>clients := [(second_addr, 5)], client_sockets := [(second_addr, 2)]\<rparr>)"
    using ne by (simp add: get_connected_count_def expired_addrs_def dict_del_def dict_has_def
        two_clients_def)
  have k: "record_keys two_clients = {panel_addr, second_addr}"
    by (simp add: record_keys_def two_clients_def)
  have l: "length (clients two_clients) = 2"
    by (simp add: two_clients_def)
  show ?thesis
    using get_connected_count_prunes_expired[OF d, of 9 panel_addr] d e9 e6 g k ne l
    by auto
qed


section \<open>Properties of the client session\<close>

lemma cleanup_zmq_resources_fields:
  "svc_running (cleanup_zmq_resources env s) = svc_running s"
  "tcp_socket (cleanup_zmq_resources env s) = tcp_socket s"
  "stats_timer (cleanup_zmq_resources env s) = stats_timer s"
  "status_events (cleanup_zmq_resources env s) = status_events s"
  "frame_events (cleanup_zmq_resources env s) = frame_events s"
  "zmq_initialized (cleanup_zmq_resources env s) = False"
  "zmq_poller (cleanup_zmq_resources env s) = None"
  "zmq_sock (cleanup_zmq_resources env s) = (if sock_close_raises env then zmq_sock s else None)"
  "zmq_ctx (cleanup_zmq_resources env s) = (if ctx_term_raises env then zmq_ctx s else None)"
  by (simp_all add: cleanup_zmq_resources_def Let_def)

lemma disconnect_fields:
  "svc_running (disconnect env s) = False"
  "tcp_socket (disconnect env s) = None"
  "stats_timer (disconnect env s) = None"
  "zmq_initialized (disconnect env s) = False"
  "zmq_poller (disconnect env s) = None"
  "zmq_sock (disconnect env s) = (if sock_close_raises env then zmq_sock s else None)"
  "frame_events (disconnect env s) = frame_events s"
  "status_events (disconnect env s)
     = status_events s @ [(False, if svc_running s then ''Disconnected''
                                  else ''Already disconnected'')]"
  by (simp_all add: disconnect_def cleanup_and_notify_def cleanup_def emit_status_def
      force_close_sockets_def cleanup_zmq_resources_fields Let_def)

text \<open>
  Against claim C7 as stated: a session is connected and disconnected, and
  \<^verbatim>\<open>disconnect\<close> is called once more.  The second call emits a further
  connection-status event after the first call has returned.
\<close>

theorem second_disconnect_emits_status:
  "status_events (disconnect quiet_env (connect quiet_env (init_service :: nat zmq_stream_service)))
     = [(False, ''Connecting...''), (False, ''Disconnected'')]
   \<and> status_events (disconnect quiet_env (disconnect quiet_env
         (connect quiet_env (init_service :: nat zmq_stream_service))))
     = [(False, ''Connecting...''), (False, ''Disconnected''), (False, ''Already disconnected'')]"
  by (simp add: disconnect_fields connect_def init_service_def quiet_env_def emit_status_def
      initialize_zmq_resources_def Let_def)

text \<open>
  Claim C7, amended.  \<^verbatim>\<open>disconnect\<close> is a total operation and can be repeated.
  Every call leaves the session stopped: the running flag is false, the control
  socket and the stats timer are dropped and the ZMQ resources are cleaned up.
  No call emits a frame event.  Every call emits exactly one connection-status
  event, \<^verbatim>\<open>(False, "Disconnected")\<close> when the session was running and
  \<^verbatim>\<open>(False, "Already disconnected")\<close> otherwise, so a second call emits the
  latter.  An iteration of the receive loop that starts after \<^verbatim>\<open>disconnect\<close>
  returned leaves the loop without emitting a frame.
\<close>

theorem disconnect_repeatable:
  "svc_running (disconnect env s) = False
   \<and> tcp_socket (disconnect env s) = None
   \<and> stats_timer (disconnect env s) = None
   \<and> zmq_initialized (disconnect env s) = False
   \<and> zmq_poller (disconnect env s) = None
   \<and> zmq_sock (disconnect env s) = (if sock_close_raises env then zmq_sock s else None)
   \<and> frame_events (disconnect env s) = frame_events s
   \<and> status_events (disconnect env s)
       = status_events s @ [(False, if svc_running s then ''Disconnected''
                                    else ''Already disconnected'')]
   \<and> frame_events (disconnect env' (disconnect env s)) = frame_events s
   \<and> status_events (disconnect env' (disconnect env s))
       = status_events (disconnect env s) @ [(False, ''Already disconnected'')]
   \<and> receive_iteration env' decode decode_image reinit ready evs (disconnect env s)
       = Some (Break, reinit, disconnect env s)"
  by (simp add: disconnect_fields receive_iteration_def)

text \<open>C7 at a session that was connected with no failure.\<close>

theorem disconnect_repeatable_witness:
  "svc_running (connect quiet_env (init_service :: nat zmq_stream_service))
   \<and> svc_running (disconnect quiet_env (connect quiet_env (init_service :: nat zmq_stream_service)))
       = False
   \<and> zmq_sock (connect quiet_env (init_service :: nat zmq_stream_service)) = Some 1
   \<and> zmq_sock (disconnect quiet_env (connect quiet_env (init_service :: nat zmq_stream_service)))
       = None
   \<and> status_events (disconnect quiet_env (connect quiet_env (init_service :: nat zmq_stream_service)))
       = [(False, ''Connecting...''), (False, ''Disconnected'')]
   \<and> status_events (disconnect quiet_env (disconnect quiet_env
         (connect quiet_env (init_service :: nat zmq_stream_service))))
       = [(False, ''Connecting...''), (False, ''Disconnected''), (False, ''Already disconnected'')]
   \<and> receive_iteration quiet_env Some (\<lambda>data format_hint. Some 0) False True six_ready
         (disconnect quiet_env (connect quiet_env (init_service :: nat zmq_stream_service)))
       = Some (Break, False,
           disconnect quiet_env (connect quiet_env (init_service :: nat zmq_stream_service)))"
proof -
  have c: "connect quiet_env (init_service :: nat zmq_stream_service)
             = init_service\<lparr>svc_running := True, status_events := [(False, ''Connecting...'')],
                 zmq_ctx := Some 0, zmq_sock := Some 1, zmq_poller := Some 2,
                 zmq_initialized := True, zmq_decode_thread := Some 3, tcp_thread := Some 4,
                 stats_timer := Some 5, next_handle := 6\<rparr>"
    by (simp add: connect_def init_service_def quiet_env_def emit_status_def
        initialize_zmq_resources_def Let_def)
  have q: "sock_close_raises quiet_env = False"
    by (simp add: quiet_env_def)
  show ?thesis
    using disconnect_repeatable
            [of quiet_env "connect quiet_env (init_service :: nat zmq_stream_service)" quiet_env
                Some "\<lambda>data format_hint. Some 0" False True six_ready]
    by (simp add: c q)
qed

text \<open>
  Claim C8.  While the session is running, \<^verbatim>\<open>connect\<close> returns the object as it
  was: no handle is drawn, so no thread, socket, context, poller or timer is
  created, no event is emitted and no attribute changes.
\<close>

theorem connect_idempotent_while_running:
  "svc_running s \<Longrightarrow> connect env s = s"
  by (simp add: connect_def)

text \<open>C8 at the session a first, successful \<^verbatim>\<open>connect\<close> leaves.\<close>

theorem connect_idempotent_while_running_witness:
  "svc_running (connect quiet_env (init_service :: nat zmq_stream_service))
   \<and> connect quiet_env (connect quiet_env (init_service :: nat zmq_stream_service))
       = connect quiet_env init_service
   \<and> next_handle (connect quiet_env (connect quiet_env (init_service :: nat zmq_stream_service))) = 6
   \<and> tcp_thread (connect quiet_env (connect quiet_env (init_service :: nat zmq_stream_service)))
       = Some 4
   \<and> status_events (connect quiet_env (connect quiet_env (init_service :: nat zmq_stream_service)))
       = [(False, ''Connecting...'')]"
proof -
  have c: "connect quiet_env (init_service :: nat zmq_stream_service)
             = init_service\<lparr>svc_running := True, status_events := [(False, ''Connecting...'')],
                 zmq_ctx := Some 0, zmq_sock := Some 1, zmq_poller := Some 2,
                 zmq_initialized := True, zmq_decode_thread := Some 3, tcp_thread := Some 4,
                 stats_timer := Some 5, next_handle := 6\<rparr>"
    by (simp add: connect_def init_service_def quiet_env_def emit_status_def
        initialize_zmq_resources_def Let_def)
  have r: "svc_running (connect quiet_env (init_service :: nat zmq_stream_service))"
    by (simp add: c)
  show ?thesis
    using connect_idempotent_while_running[OF r, of quiet_env] r
    by (simp add: c)
qed


section \<open>Properties of the render buffer\<close>

lemma deque_append_length:
  "length xs \<le> n \<Longrightarrow> length (deque_append n x xs) \<le> n"
  by (simp add: deque_append_def Let_def)

lemma deque_append_room:
  "length xs < n \<Longrightarrow> deque_append n x xs = xs @ [x]"
  by (simp add: deque_append_def Let_def)

lemma deque_append_full:
  "length xs = n \<Longrightarrow> 0 < n \<Longrightarrow> deque_append n x xs = tl xs @ [x]"
  by (cases xs) (simp_all add: deque_append_def Let_def)

lemma on_decoded_pixmap_buffer:
  "render_buffer (on_decoded_pixmap p s)
     = (if active s then deque_append DESKTOP_STREAM_BUFFER_SIZE p (render_buffer s)
        else render_buffer s)"
  by (simp add: on_decoded_pixmap_def Let_def)

lemma render_frame_buffer:
  "render_buffer (snd (render_frame s))
     = (if active s \<and> render_timer s then tl (render_buffer s) else render_buffer s)"
  by (cases "render_buffer s") (simp_all add: render_frame_def Let_def)

lemma panel_step_bounded:
  "length (render_buffer s) \<le> DESKTOP_STREAM_BUFFER_SIZE \<Longrightarrow>
   length (render_buffer (panel_step e s)) \<le> DESKTOP_STREAM_BUFFER_SIZE"
  by (cases e)
     (auto simp add: on_enter_def on_leave_def on_decoded_pixmap_buffer render_frame_buffer
        deque_append_length)

lemma panel_run_bounded:
  "length (render_buffer s) \<le> DESKTOP_STREAM_BUFFER_SIZE \<Longrightarrow>
   length (render_buffer (panel_run es s)) \<le> DESKTOP_STREAM_BUFFER_SIZE"
  by (induction es arbitrary: s) (simp_all add: panel_step_bounded)

text \<open>
  Against claim C9 as stated: the buffer holds frames 1 and 2 and frame 3 is
  appended.  Frame 1 has left the buffer, and the pacer has drawn nothing.
\<close>

theorem full_buffer_append_evicts:
  "render_buffer full_panel = [1, 2]
   \<and> render_buffer (on_decoded_pixmap 3 full_panel) = [2, 3]
   \<and> video_label (on_decoded_pixmap 3 full_panel) = None
   \<and> rendered_frame_count (on_decoded_pixmap 3 full_panel) = 0"
  by (simp add: full_panel_def on_decoded_pixmap_def deque_append_def
      DESKTOP_STREAM_BUFFER_SIZE_def Let_def)

text \<open>
  Claim C9, amended.  From the panel's initial state, after any sequence of
  enter, leave, decoded-frame and tick events, the render buffer holds at most 2
  frames, and the length a tick observes is at most 2.  Appending is a total
  operation: on an active panel with room it adds the frame at the end; on an
  active panel whose buffer is full it drops the oldest frame and adds the new
  one at the end; on an inactive panel it does nothing.  A tick of an active
  panel with its timer set takes the oldest frame, if there is one.
\<close>

theorem render_buffer_bounded:
  "length (render_buffer (panel_run es init_panel)) \<le> DESKTOP_STREAM_BUFFER_SIZE
   \<and> (case fst (render_frame (panel_run es init_panel)) of
         None \<Rightarrow> True | Some buf_len \<Rightarrow> buf_len \<le> DESKTOP_STREAM_BUFFER_SIZE)
   \<and> (active s \<and> length (render_buffer s) < DESKTOP_STREAM_BUFFER_SIZE
        \<longrightarrow> render_buffer (on_decoded_pixmap pixmap s) = render_buffer s @ [pixmap])
   \<and> (active s \<and> length (render_buffer s) = DESKTOP_STREAM_BUFFER_SIZE
        \<longrightarrow> render_buffer (on_decoded_pixmap pixmap s) = tl (render_buffer s) @ [pixmap])
   \<and> (\<not> active s \<longrightarrow> on_decoded_pixmap pixmap s = s)
   \<and> render_buffer (snd (render_frame s))
       = (if active s \<and> render_timer s then tl (render_buffer s) else render_buffer s)"
proof -
  have b: "length (render_buffer (panel_run es init_panel)) \<le> DESKTOP_STREAM_BUFFER_SIZE"
    by (rule panel_run_bounded) (simp add: init_panel_def)
  have o: "case fst (render_frame (panel_run es init_panel)) of
         None \<Rightarrow> True | Some buf_len \<Rightarrow> buf_len \<le> DESKTOP_STREAM_BUFFER_SIZE"
    using b by (simp add: render_frame_def Let_def)
  have r: "active s \<and> length (render_buffer s) < DESKTOP_STREAM_BUFFER_SIZE
        \<longrightarrow> render_buffer (on_decoded_pixmap pixmap s) = render_buffer s @ [pixmap]"
    by (simp add: on_decoded_pixmap_buffer deque_append_room)
  have f: "active s \<and> length (render_buffer s) = DESKTOP_STREAM_BUFFER_SIZE
        \<longrightarrow> render_buffer (on_decoded_pixmap pixmap s) = tl (render_buffer s) @ [pixmap]"
    by (simp add: on_decoded_pixmap_buffer deque_append_full DESKTOP_STREAM_BUFFER_SIZE_def)
  have i: "\<not> active s \<longrightarrow> on_decoded_pixmap pixmap s = s"
    by (simp add: on_decoded_pixmap_def)
  from b o r f i render_frame_buffer[of s] show ?thesis
    by blast
qed

text \<open>C9 at a run of three frames and a tick, at a full buffer and at an inactive panel.\<close>

theorem render_buffer_bounded_witness:
  "render_buffer (panel_run [Enter, Decoded 1, Decoded 2, Decoded 3, Tick]
                    (init_panel :: nat desktop_stream_panel)) = [3]
   \<and> active full_panel \<and> length (render_buffer full_panel) = DESKTOP_STREAM_BUFFER_SIZE
   \<and> render_buffer (on_decoded_pixmap 3 full_panel) = [2, 3]
   \<and> length (render_buffer (on_decoded_pixmap 3 full_panel)) \<le> DESKTOP_STREAM_BUFFER_SIZE
   \<and> render_buffer (snd (render_frame full_panel)) = [2]
   \<and> on_decoded_pixmap 7 (init_panel :: nat desktop_stream_panel) = init_panel
   \<and> render_buffer (on_decoded_pixmap 2 (full_panel\<lparr>render_buffer := [1]\<rparr>)) = [1, 2]"
proof -
  have e: "render_buffer (panel_run [Enter, Decoded 1, Decoded 2, Decoded 3, Tick]
                    (init_panel :: nat desktop_stream_panel)) = [3]"
    by (simp add: init_panel_def on_enter_def on_decoded_pixmap_def render_frame_def
        deque_append_def DESKTOP_STREAM_BUFFER_SIZE_def Let_def)
  have a: "active full_panel" "render_buffer full_panel = [1, 2]" "render_timer full_panel"
    by (simp_all add: full_panel_def)
  have n: "\<not> active (init_panel :: nat desktop_stream_panel)"
    by (simp add: init_panel_def)
  show ?thesis
    using render_buffer_bounded
            [of "[Enter, Decoded (1::nat), Decoded 2, Decoded 3, Tick]" full_panel 3]
          render_buffer_bounded
            [of "[] :: nat panel_event list" "init_panel :: nat desktop_stream_panel" 7]
          render_buffer_bounded
            [of "[] :: nat panel_event list" "full_panel\<lparr>render_buffer := [1]\<rparr>" 2]
          e a n
    by (simp add: DESKTOP_STREAM_BUFFER_SIZE_def)
qed


section \<open>Properties of the two client maps\<close>

lemma keys_accept_client:
  "record_keys (accept_client a c now s) = insert a (record_keys s)"
  "socket_keys (accept_client a c now s) = insert a (socket_keys s)"
  by (simp_all add: accept_client_def record_keys_def socket_keys_def AList.dom_update)

lemma keys_hb_refresh:
  "record_keys (hb_refresh a now s) = insert a (record_keys s)"
  "socket_keys (hb_refresh a now s) = socket_keys s"
  by (simp_all add: hb_refresh_def record_keys_def socket_keys_def AList.dom_update)

lemma keys_delete:
  "set (map fst (AList.delete a d)) = set (map fst d) - {a}"
  by (simp add: AList.delete_keys)

lemma keys_hb_drop:
  "record_keys (hb_drop a s) = record_keys s - {a}"
  "socket_keys (hb_drop a s) = (if a \<in> record_keys s then socket_keys s - {a} else socket_keys s)"
  by (simp_all add: hb_drop_def record_keys_def socket_keys_def dict_has_def keys_delete Let_def
      del: set_map)

lemma keys_conn_close:
  "record_keys (conn_close c s) = record_keys s"
  "socket_keys (conn_close c s) = socket_keys s"
  by (simp_all add: conn_close_def record_keys_def socket_keys_def)

lemma keys_stop_checking:
  "record_keys (stop_checking s) = record_keys s"
  "socket_keys (stop_checking s) = socket_keys s"
  by (simp_all add: stop_checking_def record_keys_def socket_keys_def)

lemma prune_expired_keys:
  "\<exists>D. record_keys (snd (prune_expired as s)) = record_keys s - D
     \<and> socket_keys (snd (prune_expired as s)) = socket_keys s - D"
proof (induction as arbitrary: s)
  case Nil
  have "record_keys s = record_keys s - {} \<and> socket_keys s = socket_keys s - {}" by simp
  then show ?case by (simp del: Diff_empty) blast
next
  case (Cons a as)
  show ?case
  proof (cases "dict_has a (clients s)")
    case False
    have "record_keys s = record_keys s - {} \<and> socket_keys s = socket_keys s - {}" by simp
    with False show ?thesis by (simp add: dict_del_def del: Diff_empty) blast
  next
    case True
    let ?s2 = "s\<lparr>clients := AList.delete a (clients s),
                 client_sockets := AList.delete a (client_sockets s)\<rparr>"
    have step: "prune_expired (a # as) s = prune_expired as ?s2"
      using True by (simp add: dict_del_def guarded_socket_delete Let_def)
    have k: "record_keys ?s2 = record_keys s - {a}" "socket_keys ?s2 = socket_keys s - {a}"
      by (simp_all add: record_keys_def socket_keys_def keys_delete del: set_map)
    obtain D where "record_keys (snd (prune_expired as ?s2)) = record_keys ?s2 - D"
      "socket_keys (snd (prune_expired as ?s2)) = socket_keys ?s2 - D"
      using Cons.IH[of ?s2] by blast
    then have "record_keys (snd (prune_expired (a # as) s)) = record_keys s - (insert a D)
      \<and> socket_keys (snd (prune_expired (a # as) s)) = socket_keys s - (insert a D)"
      unfolding step k by blast
    then show ?thesis by blast
  qed
qed

lemma get_connected_count_keys:
  "\<exists>D. record_keys (snd (get_connected_count now s)) = record_keys s - D
     \<and> socket_keys (snd (get_connected_count now s)) = socket_keys s - D"
proof -
  obtain e s' where p: "prune_expired (expired_addrs now (clients s)) s = (e, s')"
    by (cases "prune_expired (expired_addrs now (clients s)) s") auto
  have "snd (get_connected_count now s) = s'"
    by (cases e) (simp_all add: get_connected_count_def p)
  moreover have "s' = snd (prune_expired (expired_addrs now (clients s)) s)"
    by (simp add: p)
  ultimately have "snd (get_connected_count now s)
                     = snd (prune_expired (expired_addrs now (clients s)) s)"
    by (rule trans)
  then show ?thesis
    using prune_expired_keys[of "expired_addrs now (clients s)" s] by (simp only:)
qed

lemma hb_refresh_inv:
  "sockets_have_records s \<Longrightarrow> sockets_have_records (hb_refresh a now s)"
  unfolding sockets_have_records_def keys_hb_refresh by blast

lemma hb_drop_inv:
  "sockets_have_records s \<Longrightarrow> sockets_have_records (hb_drop a s)"
  unfolding sockets_have_records_def keys_hb_drop by (cases "a \<in> record_keys s") auto

lemma heartbeat_body_cases:
  "heartbeat_body a (r, now) s = (Continue, hb_refresh a now s)
   \<or> heartbeat_body a (r, now) s = (Break, s)
   \<or> heartbeat_body a (r, now) s = (Break, hb_drop a s)"
  by (cases r) (simp_all add: heartbeat_body_def)

lemma heartbeat_body_inv:
  assumes "sockets_have_records s" "heartbeat_body a ev s = (ctl, s')"
  shows "sockets_have_records s'"
proof -
  obtain r now where ev: "ev = (r, now)" by (cases ev)
  have b: "heartbeat_body a (r, now) s = (ctl, s')"
    using assms(2) unfolding ev .
  consider "s' = hb_refresh a now s" | "s' = s" | "s' = hb_drop a s"
    using heartbeat_body_cases[of a r now s] unfolding b by auto
  then show ?thesis
  proof cases
    case 1
    then show ?thesis using assms(1) by (simp add: hb_refresh_inv)
  next
    case 2
    then show ?thesis using assms(1) by simp
  next
    case 3
    then show ?thesis using assms(1) by (simp add: hb_drop_inv)
  qed
qed

lemma get_connected_count_inv:
  assumes "sockets_have_records s"
  shows "sockets_have_records (snd (get_connected_count now s))"
proof -
  obtain D where D: "record_keys (snd (get_connected_count now s)) = record_keys s - D"
    "socket_keys (snd (get_connected_count now s)) = socket_keys s - D"
  proof -
    from get_connected_count_keys[of now s] show ?thesis
      by (elim exE conjE) (rule that)
  qed
  have "socket_keys s - D \<subseteq> record_keys s - D"
    using assms unfolding sockets_have_records_def by blast
  then show ?thesis
    unfolding sockets_have_records_def D .
qed

lemma conn_close_inv:
  "sockets_have_records (conn_close c s) = sockets_have_records s"
  by (simp add: sockets_have_records_def keys_conn_close)

lemma step_HbTest_checker:
  "checker (step (HbTest i) sv) = checker sv
   \<or> (\<exists>c. checker (step (HbTest i) sv) = conn_close c (checker sv))"
proof (cases "i < length (hb_threads sv)")
  case False
  then show ?thesis by simp
next
  case True
  obtain addr conn p where t: "hb_threads sv ! i = (addr, conn, p)"
    by (cases "hb_threads sv ! i") auto
  show ?thesis
    using True t by (cases p) auto
qed

lemma step_HbRecv_checker:
  "checker (step (HbRecv i r now) sv) = checker sv
   \<or> (\<exists>addr ctl c. heartbeat_body addr (r, now) (checker sv) = (ctl, c)
        \<and> (checker (step (HbRecv i r now) sv) = c
           \<or> (\<exists>conn. checker (step (HbRecv i r now) sv) = conn_close conn c)))"
proof (cases "i < length (hb_threads sv)")
  case False
  then show ?thesis by simp
next
  case True
  obtain addr conn p where t: "hb_threads sv ! i = (addr, conn, p)"
    by (cases "hb_threads sv ! i") auto
  obtain ctl c where b: "heartbeat_body addr (r, now) (checker sv) = (ctl, c)"
    by (cases "heartbeat_body addr (r, now) (checker sv)") auto
  show ?thesis
  proof (cases p)
    case InRecv
    show ?thesis
    proof (cases ctl)
      case Continue
      with True t b InRecv have "checker (step (HbRecv i r now) sv) = c" by simp
      with b show ?thesis by blast
    next
      case Break
      with True t b InRecv have "checker (step (HbRecv i r now) sv) = conn_close conn c" by simp
      with b show ?thesis by blast
    qed
  next
    case AtLoopHead
    with True t show ?thesis by simp
  next
    case Returned
    with True t show ?thesis by simp
  qed
qed

lemma step_inv:
  assumes "sockets_have_records (checker sv)"
  shows "sockets_have_records (checker (step a sv))"
proof (cases a)
  case (Accept addr conn now)
  have "sockets_have_records (accept_client addr conn now (checker sv))"
    using assms unfolding sockets_have_records_def keys_accept_client by blast
  with Accept assms show ?thesis by simp
next
  case (HbTest i)
  with assms step_HbTest_checker[of i sv] show ?thesis
    by (auto simp add: conn_close_inv)
next
  case (HbRecv i r now)
  with assms step_HbRecv_checker[of i r now sv] show ?thesis
    by (auto simp add: conn_close_inv dest: heartbeat_body_inv)
next
  case (GetConnectedCount now)
  with assms show ?thesis
    by (simp add: get_connected_count_inv)
next
  case StopChecking
  with assms show ?thesis
    by (simp add: sockets_have_records_def keys_stop_checking)
qed

lemma run_inv:
  "sockets_have_records (checker sv) \<Longrightarrow> sockets_have_records (checker (run as sv))"
  by (induction as arbitrary: sv) (simp_all add: step_inv)

text \<open>
  Against claim C10 as stated: the reader of a slow client is inside \<^verbatim>\<open>recv\<close>
  when \<^verbatim>\<open>get_connected_count\<close> prunes the client from both maps; the heartbeat
  that then arrives writes the address back into \<^verbatim>\<open>clients\<close> alone.  When the
  lock is released the two key sets differ.
\<close>

theorem late_heartbeat_separates_keys:
  "record_keys (checker (run late_heartbeat_trace init_server)) = {panel_addr}
   \<and> socket_keys (checker (run late_heartbeat_trace init_server)) = {}
   \<and> \<not> keys_agree (checker (run late_heartbeat_trace init_server))"
proof -
  have s1: "step (Accept panel_addr 1 0) init_server
              = \<lparr>checker = \<lparr>running = True, clients = [(panel_addr, 0)],
                             client_sockets = [(panel_addr, 1)], closed_conns = []\<rparr>,
                 hb_threads = [(panel_addr, 1, AtLoopHead)]\<rparr>"
    by (simp add: init_server_def start_checking_def init_checker_def accept_client_def)
  have s2: "step (HbTest 0) (step (Accept panel_addr 1 0) init_server)
              = \<lparr>checker = \<lparr>running = True, clients = [(panel_addr, 0)],
                             client_sockets = [(panel_addr, 1)], closed_conns = []\<rparr>,
                 hb_threads = [(panel_addr, 1, InRecv)]\<rparr>"
    unfolding s1 by (simp add: heartbeat_test_def dict_has_def)
  have s3: "step (GetConnectedCount (17 / 2))
              (step (HbTest 0) (step (Accept panel_addr 1 0) init_server))
              = \<lparr>checker = \<lparr>running = True, clients = [],
                             client_sockets = [], closed_conns = []\<rparr>,
                 hb_threads = [(panel_addr, 1, InRecv)]\<rparr>"
    unfolding s2
    by (simp add: get_connected_count_def expired_addrs_def dict_del_def dict_has_def)
  have s4: "step (HbRecv 0 (Data ''hb'') (89 / 10))
              (step (GetConnectedCount (17 / 2))
                (step (HbTest 0) (step (Accept panel_addr 1 0) init_server)))
              = \<lparr>checker = \<lparr>running = True, clients = [(panel_addr, 89 / 10)],
                             client_sockets = [], closed_conns = []\<rparr>,
                 hb_threads = [(panel_addr, 1, AtLoopHead)]\<rparr>"
    unfolding s3 by (simp add: heartbeat_body_def hb_refresh_def)
  have r: "run late_heartbeat_trace init_server
             = \<lparr>checker = \<lparr>running = True, clients = [(panel_addr, 89 / 10)],
                             client_sockets = [], closed_conns = []\<rparr>,
                 hb_threads = [(panel_addr, 1, AtLoopHead)]\<rparr>"
    by (simp only: late_heartbeat_trace_def run.simps s4)
  show ?thesis
    unfolding r by (simp add: record_keys_def socket_keys_def keys_agree_def)
qed

text \<open>
  Claim C10, amended.  In every state the server reaches, whatever the
  interleaving, each address of the client-socket map is an address of the
  client-record map.  The accept path, the heartbeat-failure path and the pruning
  in \<^verbatim>\<open>get_connected_count\<close> each keep the two key sets equal when they were
  equal; the heartbeat-refresh path keeps them equal when the address still has
  a record.
\<close>

theorem sockets_have_records_invariant:
  "sockets_have_records (checker (run as init_server))
   \<and> (keys_agree s \<longrightarrow>
         keys_agree (accept_client addr conn now s)
       \<and> keys_agree (hb_drop addr s)
       \<and> keys_agree (snd (get_connected_count now s)))
   \<and> (keys_agree s \<and> dict_has addr (clients s) \<longrightarrow> keys_agree (hb_refresh addr now s))"
proof -
  have i: "sockets_have_records (checker (run as init_server))"
    by (rule run_inv)
       (simp add: init_server_def start_checking_def init_checker_def
          sockets_have_records_def socket_keys_def)
  obtain D where D: "record_keys (snd (get_connected_count now s)) = record_keys s - D"
    "socket_keys (snd (get_connected_count now s)) = socket_keys s - D"
  proof -
    from get_connected_count_keys[of now s] show ?thesis
      by (elim exE conjE) (rule that)
  qed
  have p: "keys_agree s \<longrightarrow>
         keys_agree (accept_client addr conn now s)
       \<and> keys_agree (hb_drop addr s)
       \<and> keys_agree (snd (get_connected_count now s))"
    by (auto simp add: keys_agree_def keys_accept_client keys_hb_drop D)
  have h: "keys_agree s \<and> dict_has addr (clients s) \<longrightarrow> keys_agree (hb_refresh addr now s)"
  proof
    assume a: "keys_agree s \<and> dict_has addr (clients s)"
    then have "addr \<in> record_keys s"
      by (simp add: dict_has_def record_keys_def)
    then have "insert addr (record_keys s) = record_keys s"
      by (rule insert_absorb)
    with a show "keys_agree (hb_refresh addr now s)"
      by (simp add: keys_agree_def keys_hb_refresh)
  qed
  from i p h show ?thesis by blast
qed

text \<open>C10 along the trace of the late heartbeat and at a server with two clients.\<close>

theorem sockets_have_records_invariant_witness:
  "sockets_have_records (checker (run late_heartbeat_trace init_server))
   \<and> keys_agree two_clients
   \<and> dict_has panel_addr (clients two_clients)
   \<and> keys_agree (accept_client panel_addr 3 9 two_clients)
   \<and> keys_agree (hb_drop panel_addr two_clients)
   \<and> keys_agree (snd (get_connected_count 9 two_clients))
   \<and> keys_agree (hb_refresh panel_addr 9 two_clients)"
proof -
  have k: "keys_agree two_clients"
    by (simp add: keys_agree_def record_keys_def socket_keys_def two_clients_def)
  have d: "dict_has panel_addr (clients two_clients)"
    by (simp add: dict_has_def two_clients_def)
  show ?thesis
    using sockets_have_records_invariant[of late_heartbeat_trace two_clients panel_addr 3 9] k d
    by simp
qed

end
